theory Spec2Isabelle
  imports Complex_Main "HOL-Library.Word" "HOL-Library.Signed_Division"
begin

unbundle bit_operations_syntax

section \<open>Shared data types (proj\_types.h)\<close>

text \<open>
  \<^verbatim>\<open>bat_charge_t\<close> is an atomic \<^verbatim>\<open>uint8_t\<close>. \<^verbatim>\<open>current_action_t\<close> is a C enum whose
  enumerators are single bits; the flight controller fills a variable of this type with raw
  bytes from the network and tests it with bit masks, so it is modelled as the 32-bit
  integer it is stored in, not as a closed datatype.
\<close>

type_synonym bat_charge_t = "8 word"
type_synonym current_action_t = "32 word"

definition Reserved :: current_action_t where "Reserved = push_bit 0 1"
definition SampleGPS :: current_action_t where "SampleGPS = push_bit 1 1"
definition Fly :: current_action_t where "Fly = push_bit 2 1"
definition Land :: current_action_t where "Land = push_bit 3 1"
definition Idle :: current_action_t where "Idle = push_bit 4 1"
definition Charge :: current_action_t where "Charge = push_bit 5 1"
definition Abort :: current_action_t where "Abort = push_bit 6 1"

text \<open>
  C \<^verbatim>\<open>float\<close> values are modelled as real numbers. Every arithmetic result of the
  source passes through a rounding function \<open>rnd\<close> (the rounding to \<^verbatim>\<open>float\<close>), which
  the functions below take as a parameter; comparisons are exact. NaN and the infinities
  have no counterpart in this model.
\<close>

record acceleration_t =
  acc_x :: real
  acc_y :: real
  acc_z :: real

datatype motors_t = Motors (motor0: real) (motor1: real) (motor2: real) (motor3: real)

definition GPS_BUFFER_SIZE :: nat where "GPS_BUFFER_SIZE = 128 * 10"

record rw_lock_t =
  rd_sem :: nat
  wr_sem :: nat
  read_counter :: "8 word"

record drone_pids_t =
  pid_flight_ctrl :: int
  pid_accel :: int
  pid_battery :: int
  pid_gps_ctrl :: int
  pid_telemetry :: int
  pid_wdg :: int

record wdg_counters_t =
  wdg_flight_ctrl :: "32 word"
  wdg_accel :: "32 word"
  wdg_battery :: "32 word"
  wdg_gps_ctrl :: "32 word"
  wdg_telemetry :: "32 word"

text \<open>
  \<^verbatim>\<open>drone_shared_t\<close>. The anonymous inner structs \<^verbatim>\<open>action\<close>, \<^verbatim>\<open>accel\<close>, \<^verbatim>\<open>pwm\<close> and \<^verbatim>\<open>gps\<close>
  are flattened, their name kept as a prefix. A \<^verbatim>\<open>sem_t\<close> is its counter. The ring indices
  are \<^verbatim>\<open>size_t\<close> (64 bits); the ring itself is the list of its \<^verbatim>\<open>GPS_BUFFER_SIZE\<close> characters.
\<close>

record drone_shared_t =
  pids :: drone_pids_t
  operator_ip :: string
  drone_ip :: string
  telemetry_port :: "16 word"
  flight_ctrl_port :: "16 word"
  wdg :: wdg_counters_t
  action_lock :: rw_lock_t
  action_type :: current_action_t
  accel_mutex :: nat
  accel_acceleration :: acceleration_t
  pwm_mutex :: nat
  pwm_motors :: motors_t
  gps_mutex :: nat
  gps_full :: nat
  gps_empty :: nat
  gps_write :: "64 word"
  gps_read :: "64 word"
  gps_nmea :: string
  battery :: bat_charge_t

text \<open>
  What an actor does to the outside world: a line on standard output or standard error,
  given by the format string of the source without its trailing newline and without its
  arguments, and \<^verbatim>\<open>kill(pid, SIGTERM)\<close>, given by the process id.
\<close>

datatype event =
    Stdout string
  | Stderr string
  | Kill int

record timespec =
  tv_sec :: int
  tv_nsec :: int

definition NANOSECONDS_IN_MS :: int where "NANOSECONDS_IN_MS = 1000000"

text \<open>
  The elapsed-time expression shared by battery.c and flight\_ctrl.c,
  \<^verbatim>\<open>(now.tv_sec - last.tv_sec) * 1000 + (now.tv_nsec - last.tv_nsec) / NANOSECONDS_IN_MS\<close>;
  C division truncates towards zero. \<^verbatim>\<open>long\<close> is modelled as \<open>int\<close>: monotonic clock
  readings are far from the 64-bit range.
\<close>

definition elapsed_ms :: "timespec \<Rightarrow> timespec \<Rightarrow> int" where
  "elapsed_ms now prev =
     (tv_sec now - tv_sec prev) * 1000 + (tv_nsec now - tv_nsec prev) sdiv NANOSECONDS_IN_MS"

section \<open>Semaphores and the reader/writer lock (drone\_sys.c)\<close>

text \<open>
  One actor's iteration is modelled on its own. A blocking \<^verbatim>\<open>sem_wait\<close> that returns has
  taken one unit: from a positive counter directly, from a zero counter after another
  process has posted one, which leaves zero again. A wait that never returns is the
  deadlock the watchdog exists for and is not an outcome of these functions.
\<close>

definition sem_wait :: "nat \<Rightarrow> nat" where
  "sem_wait v = v - 1"

definition sem_post :: "nat \<Rightarrow> nat" where
  "sem_post v = v + 1"

definition rwlock_init :: "rw_lock_t \<Rightarrow> rw_lock_t" where
  "rwlock_init l = l\<lparr>rd_sem := 1, wr_sem := 1, read_counter := 0\<rparr>"

definition rwlock_write_lock :: "rw_lock_t \<Rightarrow> rw_lock_t" where
  "rwlock_write_lock l = l\<lparr>wr_sem := sem_wait (wr_sem l)\<rparr>"

definition rwlock_write_unlock :: "rw_lock_t \<Rightarrow> rw_lock_t" where
  "rwlock_write_unlock l = l\<lparr>wr_sem := sem_post (wr_sem l)\<rparr>"

definition rwlock_read_lock :: "rw_lock_t \<Rightarrow> rw_lock_t" where
  "rwlock_read_lock l =
     (let l1 = l\<lparr>rd_sem := sem_wait (rd_sem l)\<rparr>;
          l2 = l1\<lparr>read_counter := read_counter l1 + 1\<rparr>;
          l3 = (if read_counter l2 = 1 then l2\<lparr>wr_sem := sem_wait (wr_sem l2)\<rparr> else l2)
      in l3\<lparr>rd_sem := sem_post (rd_sem l3)\<rparr>)"

definition rwlock_read_unlock :: "rw_lock_t \<Rightarrow> rw_lock_t" where
  "rwlock_read_unlock l =
     (let l1 = l\<lparr>rd_sem := sem_wait (rd_sem l)\<rparr>;
          l2 = l1\<lparr>read_counter := read_counter l1 - 1\<rparr>;
          l3 = (if read_counter l2 = 0 then l2\<lparr>wr_sem := sem_post (wr_sem l2)\<rparr> else l2)
      in l3\<lparr>rd_sem := sem_post (rd_sem l3)\<rparr>)"

text \<open>
  The idiom \<^verbatim>\<open>rwlock_write_lock; shm_ptr->action.type = a; rwlock_write_unlock\<close>, and the
  matching read of the action under the read lock.
\<close>

definition write_action :: "current_action_t \<Rightarrow> drone_shared_t \<Rightarrow> drone_shared_t" where
  "write_action a s =
     (let s1 = s\<lparr>action_lock := rwlock_write_lock (action_lock s)\<rparr>;
          s2 = s1\<lparr>action_type := a\<rparr>
      in s2\<lparr>action_lock := rwlock_write_unlock (action_lock s2)\<rparr>)"

definition read_action :: "drone_shared_t \<Rightarrow> current_action_t \<times> drone_shared_t" where
  "read_action s =
     (let s1 = s\<lparr>action_lock := rwlock_read_lock (action_lock s)\<rparr>;
          a = action_type s1
      in (a, s1\<lparr>action_lock := rwlock_read_unlock (action_lock s1)\<rparr>))"

section \<open>Battery (battery.c)\<close>

definition DISCHARGE_INTERVAL_MS :: int where "DISCHARGE_INTERVAL_MS = 2000"
definition CHARGE_INTERVAL_MS :: int where "CHARGE_INTERVAL_MS = 500"

text \<open>The file-scope statics of battery.c (\<^verbatim>\<open>now\<close> is overwritten on entry and is an input).\<close>

record battery_static =
  bat_last_time :: timespec
  bat_current_battery :: bat_charge_t
  bat_current_action :: current_action_t
  bat_init :: bool

text \<open>
  \<^verbatim>\<open>battery_loop\<close>: one tick, given the clock reading. The result is the statics, the
  shared region and the events of the tick; \<^verbatim>\<open>kill(0, SIGTERM)\<close> is \<open>Kill 0\<close>.
\<close>

definition battery_loop ::
  "timespec \<Rightarrow> battery_static \<Rightarrow> drone_shared_t \<Rightarrow> battery_static \<times> drone_shared_t \<times> event list"
where
  "battery_loop now l s =
     (let l1 = (if bat_init l then l\<lparr>bat_last_time := now, bat_init := False\<rparr> else l);
          elapsed = elapsed_ms now (bat_last_time l1);
          l2 = l1\<lparr>bat_current_battery := battery s\<rparr>;
          (a, s1) = read_action s;
          l3 = l2\<lparr>bat_current_action := a\<rparr>;
          cb = bat_current_battery l3;
          (l4, s2, ev) =
            (if bat_current_action l3 = Charge then
               (if elapsed \<ge> CHARGE_INTERVAL_MS then
                  (l3\<lparr>bat_last_time := now\<rparr>,
                   (if cb < 100 then s1\<lparr>battery := cb + 1\<rparr> else s1),
                   [Stdout ''Charging: Battery value (%u%%)''])
                else (l3, s1, []))
             else
               (if elapsed \<ge> DISCHARGE_INTERVAL_MS then
                  (if cb > 0 then
                     (let s' = s1\<lparr>battery := cb - 1\<rparr> in
                      if cb < 15 \<and> bat_current_action l3 \<noteq> Abort then
                        (l3\<lparr>bat_last_time := now\<rparr>, write_action Abort s',
                         [Stdout ''Discharging: Battery value %u%%'',
                          Stdout ''Battery low (%u%%). Switching to Abort state.''])
                      else
                        (l3\<lparr>bat_last_time := now\<rparr>, s',
                         [Stdout ''Discharging: Battery value %u%%'']))
                   else
                     (l3\<lparr>bat_last_time := now\<rparr>, s1,
                      [Stderr ''Battery charge is 0. Hard system shutdown.'', Kill 0]))
                else (l3, s1, [])))
      in (l4, s2\<lparr>wdg := (wdg s2)\<lparr>wdg_battery := wdg_battery (wdg s2) + 1\<rparr>\<rparr>, ev))"

text \<open>
  A sequence of ticks. Between two ticks another actor may have replaced the action
  (\<open>Some a\<close>) or not (\<open>None\<close>); the battery is the only writer of the charge.
\<close>

fun battery_run ::
  "(timespec \<times> current_action_t option) list \<Rightarrow> battery_static \<times> drone_shared_t
     \<Rightarrow> battery_static \<times> drone_shared_t"
where
  "battery_run [] ls = ls"
| "battery_run ((now, env) # ts) (l, s) =
     (let s0 = (case env of None \<Rightarrow> s | Some a \<Rightarrow> s\<lparr>action_type := a\<rparr>);
          (l', s', ev) = battery_loop now l s0
      in battery_run ts (l', s'))"

text \<open>The elapsed time a tick computes, after its one-time initialisation of \<^verbatim>\<open>last_time\<close>.\<close>

definition battery_elapsed :: "timespec \<Rightarrow> battery_static \<Rightarrow> int" where
  "battery_elapsed now l = elapsed_ms now (if bat_init l then now else bat_last_time l)"

section \<open>Supervisor: initialisation of the shared region (drone\_sys.c)\<close>

definition init_locks_shm :: "drone_shared_t \<Rightarrow> drone_shared_t" where
  "init_locks_shm p =
     p\<lparr>action_lock := rwlock_init (action_lock p),
       accel_mutex := 1,
       pwm_mutex := 1,
       gps_mutex := 1,
       gps_empty := GPS_BUFFER_SIZE,
       gps_full := 0\<rparr>"

text \<open>\<^verbatim>\<open>memset(ptr, 0, sizeof(drone_shared_t))\<close>: every field zero, the strings empty.\<close>

definition zeroed_shm :: drone_shared_t where
  "zeroed_shm =
     \<lparr>pids = \<lparr>pid_flight_ctrl = 0, pid_accel = 0, pid_battery = 0, pid_gps_ctrl = 0,
              pid_telemetry = 0, pid_wdg = 0\<rparr>,
      operator_ip = [], drone_ip = [], telemetry_port = 0, flight_ctrl_port = 0,
      wdg = \<lparr>wdg_flight_ctrl = 0, wdg_accel = 0, wdg_battery = 0, wdg_gps_ctrl = 0,
             wdg_telemetry = 0\<rparr>,
      action_lock = \<lparr>rd_sem = 0, wr_sem = 0, read_counter = 0\<rparr>,
      action_type = 0,
      accel_mutex = 0,
      accel_acceleration = \<lparr>acc_x = 0, acc_y = 0, acc_z = 0\<rparr>,
      pwm_mutex = 0,
      pwm_motors = Motors 0 0 0 0,
      gps_mutex = 0, gps_full = 0, gps_empty = 0, gps_write = 0, gps_read = 0,
      gps_nmea = replicate GPS_BUFFER_SIZE (CHR 0x00),
      battery = 0\<rparr>"

definition init_drone_shm :: "drone_shared_t \<Rightarrow> drone_shared_t" where
  "init_drone_shm p =
     init_locks_shm
       (zeroed_shm\<lparr>battery := 100, action_type := Idle,
          accel_acceleration := \<lparr>acc_x = 0, acc_y = 0, acc_z = 0\<rparr>\<rparr>)"

text \<open>
  \<^verbatim>\<open>sigusr1_handler\<close>: \<^verbatim>\<open>SIGTERM\<close> to the six actors in the order of the source, then the
  locks are initialised again in place.
\<close>

definition sigusr1_handler :: "drone_shared_t \<Rightarrow> drone_shared_t \<times> event list" where
  "sigusr1_handler p =
     (init_locks_shm p,
      [Stdout ''SIGUSR1: Watchdog detected a deadlock...'',
       Kill (pid_accel (pids p)), Kill (pid_battery (pids p)), Kill (pid_gps_ctrl (pids p)),
       Kill (pid_telemetry (pids p)), Kill (pid_flight_ctrl (pids p)), Kill (pid_wdg (pids p))])"

section \<open>Timed semaphore waits\<close>

text \<open>
  \<^verbatim>\<open>sem_timedwait\<close> returns at once with the unit when the counter is positive. When it
  is zero the caller blocks, and what ends the wait is decided outside the actor: another
  process posts the semaphore before the deadline, the deadline passes (\<^verbatim>\<open>ETIMEDOUT\<close>),
  or the call fails otherwise (\<^verbatim>\<open>EINTR\<close>). That outcome is an input of the model.
\<close>

datatype blocked = Posted | Expired | Interrupted

datatype sem_result = Acquired | TimedOut | SemError

definition sem_timedwait :: "nat \<Rightarrow> blocked \<Rightarrow> sem_result \<times> nat" where
  "sem_timedwait v b =
     (if 0 < v then (Acquired, v - 1)
      else case b of
             Posted \<Rightarrow> (Acquired, 0)
           | Expired \<Rightarrow> (TimedOut, 0)
           | Interrupted \<Rightarrow> (SemError, 0))"

definition newline :: char where
  "newline = CHR 0x0A"

section \<open>GPS producer (gps\_ctrl.c)\<close>

definition nmea_samples :: "string list" where
  "nmea_samples =
     [''$GPGGA,123519,4807.038,N,01131.000,E,1,08,0.9,545.4,M,46.9,M,,*47'' @ [newline],
      ''$GPGSA,A,3,04,05,09,12,24,25,29,30,31,,,1.8,1.0,1.5*33'' @ [newline],
      ''$GPRMC,123519,A,4807.038,N,01131.000,E,022.4,084.4,230394,003.1,W*6A'' @ [newline],
      ''$GPVTG,084.4,T,003.1,M,022.4,N,041.4,K*1F'' @ [newline]]"

definition nmea_samples_count :: nat where
  "nmea_samples_count = length nmea_samples"

text \<open>
  The critical section of the producer (gps\_ctrl.c, lines 51 to 58): one character is
  stored at \<^verbatim>\<open>gps.write\<close>, the index advances modulo the buffer size, \<^verbatim>\<open>full\<close> is posted.
  An index outside the array is undefined behaviour in C and \<open>None\<close> here.
\<close>

definition gps_put :: "char \<Rightarrow> drone_shared_t \<Rightarrow> drone_shared_t option" where
  "gps_put c s =
     (if unat (gps_write s) < GPS_BUFFER_SIZE then
        Some (s\<lparr>gps_mutex := sem_post (sem_wait (gps_mutex s)),
                gps_nmea := (gps_nmea s)[unat (gps_write s) := c],
                gps_write := (gps_write s + 1) mod word_of_nat GPS_BUFFER_SIZE,
                gps_full := sem_post (gps_full s)\<rparr>)
      else None)"

text \<open>
  The \<^verbatim>\<open>while (count < strlen(msg))\<close> loop of \<^verbatim>\<open>gps_loop\<close>. Every iteration takes one
  entry of the list of wait outcomes; a list that ends before the loop does gives \<open>None\<close>.
  The Boolean tells whether the loop ran to the end of the sample (\<open>True\<close>) or left
  through \<^verbatim>\<open>goto _wdg\<close> on a timeout (\<open>False\<close>). Output on the terminal is left out.
\<close>

fun gps_write_loop ::
  "blocked list \<Rightarrow> string \<Rightarrow> nat \<Rightarrow> drone_shared_t \<Rightarrow> (bool \<times> drone_shared_t) option"
where
  "gps_write_loop [] msg count s =
     (if count < length msg then None else Some (True, s))"
| "gps_write_loop (b # bs) msg count s =
     (if count < length msg then
        (let (r, e) = sem_timedwait (gps_empty s) b;
             s1 = s\<lparr>gps_empty := e\<rparr>
         in case r of
              TimedOut \<Rightarrow> Some (False, s1)
            | SemError \<Rightarrow> gps_write_loop bs msg count s1
            | Acquired \<Rightarrow>
                (case gps_put (msg ! count) s1 of
                   None \<Rightarrow> None
                 | Some s2 \<Rightarrow> gps_write_loop bs msg (count + 1) s2))
      else Some (True, s))"

text \<open>
  \<^verbatim>\<open>gps_loop\<close>: the static \<^verbatim>\<open>sample_index\<close> is passed in and returned. Reading past the
  table of samples is undefined behaviour in C and \<open>None\<close> here.
\<close>

definition gps_loop ::
  "blocked list \<Rightarrow> nat \<Rightarrow> drone_shared_t \<Rightarrow> (nat \<times> drone_shared_t) option"
where
  "gps_loop bs sample_index s =
     (if sample_index < nmea_samples_count then
        (case gps_write_loop bs (nmea_samples ! sample_index) 0 s of
           None \<Rightarrow> None
         | Some (completed, s1) \<Rightarrow>
             Some (if completed then (sample_index + 1) mod nmea_samples_count
                   else sample_index,
                   s1\<lparr>wdg := (wdg s1)\<lparr>wdg_gps_ctrl := wdg_gps_ctrl (wdg s1) + 1\<rparr>\<rparr>))
      else None)"

section \<open>Telemetry: the GPS consumer (telemetry.c)\<close>

definition MSG_SIZE :: nat where "MSG_SIZE = 256"

text \<open>
  The message under construction is \<^verbatim>\<open>char msg[256]\<close> with the fill index \<^verbatim>\<open>ptr\<close>; only
  the first \<^verbatim>\<open>ptr\<close> bytes are sent. It is modelled as the string of those bytes, so that
  \<^verbatim>\<open>ptr\<close> is its length.

  \<^verbatim>\<open>BUF_APPEND(msg, ptr, fmt)\<close> prints \<^verbatim>\<open>fmt "\n"\<close> with \<^verbatim>\<open>snprintf\<close> into the room that
  is left. When the text is shorter than the room it is appended whole; otherwise
  \<^verbatim>\<open>snprintf\<close> stores one character less than the room (and a NUL) and \<^verbatim>\<open>ptr\<close> advances by
  that much. The argument is the text already formatted.
\<close>

definition BUF_APPEND :: "string \<Rightarrow> string \<Rightarrow> string" where
  "BUF_APPEND msg fmt =
     (if length msg < MSG_SIZE then
        (let text = fmt @ [newline];
             room = MSG_SIZE - length msg
         in if length text < room then msg @ text else msg @ take (room - 1) text)
      else msg)"

text \<open>
  The consumer's critical section (telemetry.c, lines 161 to 166), entered with the
  mutex held: one character is read at \<^verbatim>\<open>gps.read\<close> and stored at \<^verbatim>\<open>msg[ptr++]\<close>, the
  index advances modulo the buffer size, the mutex and \<^verbatim>\<open>empty\<close> are posted.
\<close>

definition telemetry_take ::
  "string \<Rightarrow> drone_shared_t \<Rightarrow> (char \<times> string \<times> drone_shared_t) option"
where
  "telemetry_take msg s =
     (if unat (gps_read s) < GPS_BUFFER_SIZE then
        (let c = gps_nmea s ! unat (gps_read s)
         in Some (c, msg @ [c],
                  s\<lparr>gps_read := (gps_read s + 1) mod word_of_nat GPS_BUFFER_SIZE,
                    gps_mutex := sem_post (gps_mutex s),
                    gps_empty := sem_post (gps_empty s)\<rparr>))
      else None)"

text \<open>How the drain loop of \<^verbatim>\<open>telemetry_loop\<close> ended.\<close>

datatype drain_exit = GotLine | MsgFull | NoFix | FullWaitFailed | MutexWaitFailed

text \<open>
  The loop \<^verbatim>\<open>while (ptr < sizeof(msg) - 2)\<close>. Every iteration takes one pair of wait
  outcomes, for \<^verbatim>\<open>gps.full\<close> and for \<^verbatim>\<open>gps.mutex\<close>.
\<close>

fun telemetry_drain ::
  "(blocked \<times> blocked) list \<Rightarrow> string \<Rightarrow> drone_shared_t
     \<Rightarrow> (drain_exit \<times> string \<times> drone_shared_t) option"
where
  "telemetry_drain [] msg s =
     (if length msg < MSG_SIZE - 2 then None else Some (MsgFull, msg, s))"
| "telemetry_drain ((bf, bm) # bs) msg s =
     (if length msg < MSG_SIZE - 2 then
        (let (r, f) = sem_timedwait (gps_full s) bf;
             s1 = s\<lparr>gps_full := f\<rparr>
         in case r of
              TimedOut \<Rightarrow> Some (NoFix, BUF_APPEND msg ''NO FIX.'', write_action Abort s1)
            | SemError \<Rightarrow> Some (FullWaitFailed, msg, s1)
            | Acquired \<Rightarrow>
                (let (rm, m) = sem_timedwait (gps_mutex s1) bm;
                     s2 = s1\<lparr>gps_mutex := m\<rparr>
                 in if rm \<noteq> Acquired then
                      Some (MutexWaitFailed, msg, s2\<lparr>gps_full := sem_post (gps_full s2)\<rparr>)
                    else
                      (case telemetry_take msg s2 of
                         None \<Rightarrow> None
                       | Some (c, msg', s3) \<Rightarrow>
                           if c = newline then Some (GotLine, msg', s3)
                           else telemetry_drain bs msg' s3)))
      else Some (MsgFull, msg, s))"

text \<open>
  The part of \<^verbatim>\<open>telemetry_loop\<close> from the read of the action to the closing brace of the
  GPS block (lines 120 to 174). \<open>hdr\<close> is the message composed so far, the \<^verbatim>\<open>ACTION\<close> line
  included: its numbers are formatted by \<^verbatim>\<open>printf\<close>, which is not modelled. The connection
  handling and the \<^verbatim>\<open>send\<close> that follow do not touch the shared region apart from the
  heartbeat.
\<close>

definition telemetry_gps ::
  "(blocked \<times> blocked) list \<Rightarrow> string \<Rightarrow> drone_shared_t
     \<Rightarrow> (drain_exit option \<times> string \<times> drone_shared_t) option"
where
  "telemetry_gps bs hdr s =
     (let (action, s0) = read_action s
      in if action = SampleGPS then
           (case telemetry_drain bs (BUF_APPEND hdr (''GPS {'' @ [newline])) s0 of
              None \<Rightarrow> None
            | Some (x, msg, s1) \<Rightarrow> Some (Some x, BUF_APPEND msg (newline # ''}''), s1))
         else Some (None, hdr, s0))"

text \<open>
  What a run of producer steps leaves in the ring: the characters stored one after the
  other from index \<open>w\<close>, wrapping at the buffer size. The pair is the buffer and the
  write index.
\<close>

fun ring_store :: "string \<Rightarrow> string \<times> nat \<Rightarrow> string \<times> nat" where
  "ring_store [] (buf, w) = (buf, w)"
| "ring_store (c # cs) (buf, w) = ring_store cs (buf[w := c], (w + 1) mod GPS_BUFFER_SIZE)"

section \<open>Flight controller (flight\_ctrl.c)\<close>

definition BIND_RETRY_MS :: int where "BIND_RETRY_MS = 2000"
definition MAX_FLY_TIMEOUT :: "8 word" where "MAX_FLY_TIMEOUT = 10"
definition ACCEL_STABILIZATION_THRESHOLD :: real where "ACCEL_STABILIZATION_THRESHOLD = 1 / 2"

text \<open>
  The \<^verbatim>\<open>float\<close> literals \<^verbatim>\<open>0.01f\<close>, \<^verbatim>\<open>0.005f\<close> and \<^verbatim>\<open>0.7f\<close> are the roundings of the decimal
  fractions; \<^verbatim>\<open>0.0f\<close>, \<^verbatim>\<open>0.5f\<close>, \<^verbatim>\<open>1.0f\<close> and \<^verbatim>\<open>4.0f\<close> are exact.
\<close>

definition DELTA_DECREASE :: "(real \<Rightarrow> real) \<Rightarrow> real" where
  "DELTA_DECREASE rnd = rnd (1 / 100)"
definition DELTA_INCREASE :: "(real \<Rightarrow> real) \<Rightarrow> real" where
  "DELTA_INCREASE rnd = rnd (5 / 1000)"
definition FLY_THRESH :: "(real \<Rightarrow> real) \<Rightarrow> real" where
  "FLY_THRESH rnd = rnd (7 / 10)"

definition fl_add :: "(real \<Rightarrow> real) \<Rightarrow> real \<Rightarrow> real \<Rightarrow> real" where
  "fl_add rnd a b = rnd (a + b)"
definition fl_sub :: "(real \<Rightarrow> real) \<Rightarrow> real \<Rightarrow> real \<Rightarrow> real" where
  "fl_sub rnd a b = rnd (a - b)"
definition fl_div :: "(real \<Rightarrow> real) \<Rightarrow> real \<Rightarrow> real \<Rightarrow> real" where
  "fl_div rnd a b = rnd (a / b)"

text \<open>The loops \<^verbatim>\<open>for (int i = 0; i < 4; ++i)\<close> treat the four motors alike.\<close>

fun map_motors :: "(real \<Rightarrow> real) \<Rightarrow> motors_t \<Rightarrow> motors_t" where
  "map_motors f (Motors a b c d) = Motors (f a) (f b) (f c) (f d)"

text \<open>The statics of flight\_ctrl.c and of \<^verbatim>\<open>flight_loop\<close>; the socket handles are left out.\<close>

record flight_static =
  fc_current_battery :: bat_charge_t
  last_action :: current_action_t
  last_accel :: acceleration_t
  fc_init :: bool
  fc_last_time :: timespec
  fly_timeout :: "8 word"

text \<open>
  What one call of \<^verbatim>\<open>recvfrom(sockfd, &operator_cmd, sizeof(operator_cmd), MSG_DONTWAIT, ...)\<close>
  can return: \<^verbatim>\<open>-1\<close> with \<^verbatim>\<open>EWOULDBLOCK\<close> (on Linux the same number as \<^verbatim>\<open>EAGAIN\<close>), \<^verbatim>\<open>-1\<close> with
  \<^verbatim>\<open>EINTR\<close>, \<^verbatim>\<open>-1\<close> with another error, or a datagram, given by its bytes.
\<close>

datatype recv_result = EWouldBlock | EIntr | EOther | Received "8 word list"

text \<open>
  A datagram is copied to the address of \<^verbatim>\<open>operator_cmd\<close>: at most \<^verbatim>\<open>sizeof(operator_cmd) = 4\<close>
  bytes, the rest of a longer datagram being discarded, and the return value is the number
  of bytes copied. The bytes of the variable that are not overwritten keep their value.
  The byte order is little-endian, as on x86-64 and AArch64 Linux.
\<close>

definition le_bytes :: "32 word \<Rightarrow> 8 word list" where
  "le_bytes w = [ucast w, ucast (drop_bit 8 w), ucast (drop_bit 16 w), ucast (drop_bit 24 w)]"

definition of_le_bytes :: "8 word list \<Rightarrow> 32 word" where
  "of_le_bytes bs = foldr (\<lambda>b w. ucast b OR push_bit 8 w) bs 0"

definition recv_into :: "8 word list \<Rightarrow> 32 word \<Rightarrow> nat \<times> 32 word" where
  "recv_into dgram var =
     (let n = min (length dgram) 4
      in (n, of_le_bytes (take n dgram @ drop n (le_bytes var))))"

text \<open>
  The receive at label \<^verbatim>\<open>_binded\<close>, with \<^verbatim>\<open>operator_cmd\<close> still at its initial value
  \<^verbatim>\<open>Reserved\<close>. \<^verbatim>\<open>EINTR\<close> jumps back to the label, so the calls are a list of results, and a
  list that ends in the middle of the retries gives \<open>None\<close>.
\<close>

fun flight_recvfrom ::
  "recv_result list \<Rightarrow> flight_static \<Rightarrow> drone_shared_t
     \<Rightarrow> (current_action_t \<times> flight_static \<times> drone_shared_t \<times> event list) option"
where
  "flight_recvfrom [] l s = None"
| "flight_recvfrom (EIntr # rs) l s = flight_recvfrom rs l s"
| "flight_recvfrom (EWouldBlock # rs) l s = Some (Reserved, l, s, [])"
| "flight_recvfrom (EOther # rs) l s =
     Some (Reserved, l\<lparr>fc_init := True\<rparr>, write_action Abort s, [Stderr ''recvfrom''])"
| "flight_recvfrom (Received dgram # rs) l s =
     (let (n, operator_cmd) = recv_into dgram Reserved
      in Some (operator_cmd, l, s,
               if n = 4 then [Stdout ''Obtained command from operator: %d.''] else []))"

text \<open>The inputs of one iteration: the clock, whether \<^verbatim>\<open>try_bind\<close> would succeed, the receives.\<close>

record flight_env =
  fe_now :: timespec
  fe_bind_ok :: bool
  fe_recvs :: "recv_result list"

text \<open>Lines 321 to 356: the bind retry and the receive. The result starts with \<^verbatim>\<open>operator_cmd\<close>.\<close>

definition flight_recv ::
  "flight_env \<Rightarrow> flight_static \<Rightarrow> drone_shared_t
     \<Rightarrow> (current_action_t \<times> flight_static \<times> drone_shared_t \<times> event list) option"
where
  "flight_recv env l s =
     (let elapsed = elapsed_ms (fe_now env) (fc_last_time l)
      in if fc_init l then
           (if elapsed \<ge> BIND_RETRY_MS \<and> fe_bind_ok env then
              (case flight_recvfrom (fe_recvs env) (l\<lparr>fc_init := False\<rparr>) s of
                 None \<Rightarrow> None
               | Some (cmd, l1, s1, ev) \<Rightarrow>
                   Some (cmd, l1, s1,
                         [Stdout ''Connection is not initialized. Trying to bind... '',
                          Stdout ''Socket bind complete..''] @ ev))
            else
              Some (Reserved, l\<lparr>fc_last_time := fe_now env\<rparr>, s,
                    if elapsed \<ge> BIND_RETRY_MS
                    then [Stdout ''Connection is not initialized. Trying to bind... '']
                    else []))
         else flight_recvfrom (fe_recvs env) l s)"

definition printactln :: "current_action_t \<Rightarrow> string" where
  "printactln a =
     (if a = Reserved then ''Reserved''
      else if a = Fly then ''Fly''
      else if a = SampleGPS then ''SampleGPS''
      else if a = Land then ''Land''
      else if a = Idle then ''Idle''
      else if a = Charge then ''Charge''
      else if a = Abort then ''Abort''
      else ''Undefined'')"

text \<open>A mutex taken and released again around a copy.\<close>

definition locked :: "nat \<Rightarrow> nat" where
  "locked v = sem_post (sem_wait v)"

text \<open>Lines 386 to 388, 399 to 408 and 496 to 500: what happens to one motor.\<close>

definition fly_raise :: "(real \<Rightarrow> real) \<Rightarrow> real \<Rightarrow> real" where
  "fly_raise rnd m =
     (let m1 = fl_add rnd m (DELTA_INCREASE rnd) in if m1 > 1 then 1 else m1)"

definition fly_stabilize :: "(real \<Rightarrow> real) \<Rightarrow> real \<Rightarrow> real \<Rightarrow> real" where
  "fly_stabilize rnd tilt m =
     (let m1 = fl_sub rnd m tilt;
          m2 = (if m1 > 1 then 1 else m1)
      in if m2 < 0 then 0 else m2)"

definition land_lower :: "(real \<Rightarrow> real) \<Rightarrow> real \<Rightarrow> real" where
  "land_lower rnd m =
     (let current = fl_sub rnd m (DELTA_DECREASE rnd) in if current < 0 then 0 else current)"

text \<open>\<^verbatim>\<open>case Fly\<close> (lines 370 to 440).\<close>

definition flight_fly ::
  "(real \<Rightarrow> real) \<Rightarrow> current_action_t \<Rightarrow> flight_static \<Rightarrow> drone_shared_t
     \<Rightarrow> flight_static \<times> drone_shared_t \<times> event list"
where
  "flight_fly rnd operator_cmd l s =
     (let tmp_m = pwm_motors s;
          s1 = s\<lparr>pwm_mutex := locked (pwm_mutex s)\<rparr>;
          avg_pwm = fl_div rnd
            (fl_add rnd (fl_add rnd (fl_add rnd (fl_add rnd 0 (motor0 tmp_m)) (motor1 tmp_m))
               (motor2 tmp_m)) (motor3 tmp_m)) 4;
          tmp1 = (if avg_pwm < FLY_THRESH rnd then map_motors (fly_raise rnd) tmp_m else tmp_m);
          accel = accel_acceleration s1;
          s2 = s1\<lparr>accel_mutex := locked (accel_mutex s1)\<rparr>;
          tmp2 = (if avg_pwm \<ge> ACCEL_STABILIZATION_THRESHOLD
                  then map_motors (fly_stabilize rnd (fl_add rnd (acc_x accel) (acc_y accel))) tmp1
                  else tmp1);
          s3 = s2\<lparr>pwm_mutex := locked (pwm_mutex s2), pwm_motors := tmp2\<rparr>;
          (l1, s4, ev) =
            (if acc_x accel = acc_x (last_accel l) \<and> acc_y accel = acc_y (last_accel l)
                \<and> acc_z accel = acc_z (last_accel l)
             then
               (let l' = l\<lparr>fly_timeout := fly_timeout l + 1\<rparr>
                in if fly_timeout l' \<ge> MAX_FLY_TIMEOUT then
                     (l'\<lparr>fly_timeout := 0\<rparr>, write_action Abort s3,
                      [Stderr ''Too much same accelerometer data. Unable to predict current drone movement. Aborting...''])
                   else (l', s3, []))
             else (l\<lparr>fly_timeout := 0\<rparr>, s3, []));
          l2 = l1\<lparr>last_accel := accel\<rparr>
      in if operator_cmd AND (SampleGPS OR Land OR Abort) \<noteq> 0
         then (l2, write_action operator_cmd s4, ev)
         else (l2, s4, ev))"

text \<open>
  \<^verbatim>\<open>case Land\<close> (lines 483 to 522), which \<^verbatim>\<open>case Abort\<close> falls into; \<open>current_action\<close> is the
  value the \<^verbatim>\<open>switch\<close> was entered with.
\<close>

definition flight_land ::
  "(real \<Rightarrow> real) \<Rightarrow> current_action_t \<Rightarrow> current_action_t \<Rightarrow> flight_static
     \<Rightarrow> drone_shared_t \<Rightarrow> flight_static \<times> drone_shared_t \<times> event list"
where
  "flight_land rnd operator_cmd current_action l s =
     (if operator_cmd AND (Fly OR Abort) \<noteq> 0 then (l, write_action operator_cmd s, [])
      else
        (let m = map_motors (land_lower rnd) (pwm_motors s);
             avg = fl_div rnd
               (fl_add rnd (fl_add rnd (fl_add rnd (fl_add rnd 0 (motor0 m)) (motor1 m))
                  (motor2 m)) (motor3 m)) 4;
             s1 = s\<lparr>pwm_mutex := sem_wait (pwm_mutex s), pwm_motors := m\<rparr>;
             (s2, ev) =
               (if avg = 0 then
                  (if current_action = Abort
                   then (write_action Charge s1, [Stdout ''Landing while Abort: Set to Charge.''])
                   else (write_action Idle s1, [Stdout ''Landing: Set to Idle.'']))
                else (s1, []))
         in (l, s2\<lparr>pwm_mutex := sem_post (pwm_mutex s2)\<rparr>,
             Stdout ''Landing: Average motor PWM: %f%%.'' # ev)))"

text \<open>
  Lines 358 to 528: the action is read, \<^verbatim>\<open>last_action\<close> is brought up to date, and the
  \<^verbatim>\<open>switch\<close> is entered.
\<close>

definition flight_switch ::
  "(real \<Rightarrow> real) \<Rightarrow> current_action_t \<Rightarrow> flight_static \<Rightarrow> drone_shared_t
     \<Rightarrow> flight_static \<times> drone_shared_t \<times> event list"
where
  "flight_switch rnd operator_cmd l s =
     (let (current_action, s0) = read_action s;
          (l0, ev0) =
            (if current_action \<noteq> last_action l
             then (l\<lparr>last_action := current_action\<rparr>,
                   [Stdout ''Current state: '', Stdout (printactln current_action)])
             else (l, []));
          (l1, s1, ev1) =
            (if current_action = Fly then flight_fly rnd operator_cmd l0 s0
             else if current_action = SampleGPS then
               (if operator_cmd AND (Fly OR Abort) \<noteq> 0
                then (l0, write_action operator_cmd s0, []) else (l0, s0, []))
             else if current_action = Idle then
               (if operator_cmd AND (Fly OR Charge OR Abort) \<noteq> 0
                then (l0, write_action operator_cmd s0, []) else (l0, s0, []))
             else if current_action = Charge then
               (if operator_cmd AND (Idle OR Abort) \<noteq> 0 then
                  (let l' = l0\<lparr>fc_current_battery := battery s0\<rparr>
                   in if fc_current_battery l' \<ge> 15
                      then (l', write_action operator_cmd s0, [])
                      else (l', s0,
                            [Stdout ''Charging: Battery below 15%%, ignoring operator commands.'']))
                else (l0, s0, []))
             else if current_action = Abort then
               (let l' = l0\<lparr>fc_current_battery := battery s0\<rparr>
                in if fc_current_battery l' < 15 then (l', write_action Charge s0, [])
                   else
                     (let (l'', s', ev) =
                            flight_land rnd operator_cmd current_action l'
                              (write_action (last_action l') s0)
                      in (l'', s', Stdout ''Changing to previous action.'' # ev)))
             else if current_action = Land then
               flight_land rnd operator_cmd current_action l0 s0
             else
               (l0, write_action Abort s0,
                [Stderr ''Unexpected state value obtained: %d. Switching to `Abort` due to undefined behavior.'']))
      in (l1, s1, ev0 @ ev1))"

definition flight_loop ::
  "(real \<Rightarrow> real) \<Rightarrow> flight_env \<Rightarrow> flight_static \<Rightarrow> drone_shared_t
     \<Rightarrow> (flight_static \<times> drone_shared_t \<times> event list) option"
where
  "flight_loop rnd env l s =
     (case flight_recv env l s of
        None \<Rightarrow> None
      | Some (operator_cmd, l1, s1, ev1) \<Rightarrow>
          (let (l2, s2, ev2) = flight_switch rnd operator_cmd l1 s1
           in Some (l2,
                    s2\<lparr>wdg := (wdg s2)\<lparr>wdg_flight_ctrl := wdg_flight_ctrl (wdg s2) + 1\<rparr>\<rparr>,
                    ev1 @ ev2)))"

text \<open>All four motor values lie between 0 and 1.\<close>

fun motors_in_range :: "motors_t \<Rightarrow> bool" where
  "motors_in_range (Motors a b c d) \<longleftrightarrow>
     0 \<le> a \<and> a \<le> 1 \<and> 0 \<le> b \<and> b \<le> 1 \<and> 0 \<le> c \<and> c \<le> 1 \<and> 0 \<le> d \<and> d \<le> 1"

section \<open>Concrete states used to run the definitions\<close>

definition fresh_shm :: drone_shared_t where
  "fresh_shm = init_drone_shm zeroed_shm"

definition at_ms :: "int \<Rightarrow> timespec" where
  "at_ms t = \<lparr>tv_sec = t div 1000, tv_nsec = (t mod 1000) * 1000000\<rparr>"

definition battery_started :: "int \<Rightarrow> battery_static" where
  "battery_started t =
     \<lparr>bat_last_time = at_ms t, bat_current_battery = 0, bat_current_action = 0,
      bat_init = False\<rparr>"

text \<open>
  A telemetry header as \<^verbatim>\<open>telemetry_loop\<close> composes it on the ground, and a ring whose 142
  pending characters are three unfinished copies of the first sample, as repeated producer
  timeouts leave them.
\<close>

definition sample_header :: string where
  "sample_header =
     ''BAT = 100%'' @ [newline]
     @ ''ACCEL = (x: 0.000000, y: 0.000000, z: -9.810000)'' @ [newline]
     @ ''MOTORS PWM = [0%, 0%, 0%, 0%]'' @ [newline]
     @ ''ACTION = 2'' @ [newline]"

definition partial_samples :: string where
  "partial_samples =
     take 65 (nmea_samples ! 0) @ take 65 (nmea_samples ! 0) @ take 12 (nmea_samples ! 0)"

definition crowded_shm :: drone_shared_t where
  "crowded_shm =
     fresh_shm\<lparr>action_type := SampleGPS,
       gps_nmea := partial_samples @ replicate 1138 (CHR 0x00),
       gps_write := 142, gps_full := 142, gps_empty := 1138\<rparr>"

text \<open>
  A flight controller whose socket is bound and that last saw the action \<open>a\<close>; an iteration
  50 ms later in which the operator's datagram arrives, and one without a datagram.
\<close>

definition flight_started :: "current_action_t \<Rightarrow> flight_static" where
  "flight_started a =
     \<lparr>fc_current_battery = 0, last_action = a,
      last_accel = \<lparr>acc_x = 0, acc_y = 0, acc_z = 0\<rparr>,
      fc_init = False, fc_last_time = at_ms 0, fly_timeout = 0\<rparr>"

definition operator_sends :: "8 word list \<Rightarrow> flight_env" where
  "operator_sends dgram = \<lparr>fe_now = at_ms 50, fe_bind_ok = True, fe_recvs = [Received dgram]\<rparr>"

definition no_command :: flight_env where
  "no_command = \<lparr>fe_now = at_ms 50, fe_bind_ok = True, fe_recvs = [EWouldBlock]\<rparr>"

text \<open>
  A battery tick that takes the charge from 1 to 0 while the action is Abort, the flight
  controller iteration that follows it, and the battery tick 600 ms after the first.
\<close>

definition drained_tick :: "battery_static \<times> drone_shared_t \<times> event list" where
  "drained_tick =
     battery_loop (at_ms 2500) (battery_started 400) (fresh_shm\<lparr>action_type := Abort, battery := 1\<rparr>)"

definition drained_flight :: "flight_static \<times> drone_shared_t \<times> event list" where
  "drained_flight =
     the (flight_loop (\<lambda>v. v) no_command (flight_started Abort) (fst (snd drained_tick)))"

definition recharge_tick :: "battery_static \<times> drone_shared_t \<times> event list" where
  "recharge_tick = battery_loop (at_ms 3100) (fst drained_tick) (fst (snd drained_flight))"

section \<open>Basic facts about the lock idioms\<close>

lemmas action_defs =
  Reserved_def SampleGPS_def Fly_def Land_def Idle_def Charge_def Abort_def

lemma triple_collapse: "r = (fst r, fst (snd r), snd (snd r))"
  by simp

lemma elapsed_ms_same: "elapsed_ms now now = 0"
  by (simp add: elapsed_ms_def)

lemma read_action_fst: "fst (read_action s) = action_type s"
  by (simp add: read_action_def Let_def)

lemma read_action_battery: "battery (snd (read_action s)) = battery s"
  by (simp add: read_action_def Let_def)

lemma read_action_type: "action_type (snd (read_action s)) = action_type s"
  by (simp add: read_action_def Let_def)

lemma write_action_type: "action_type (write_action a s) = a"
  by (simp add: write_action_def Let_def)

lemma write_action_frame:
  "gps_write (write_action a s) = gps_write s" "gps_read (write_action a s) = gps_read s"
  "gps_nmea (write_action a s) = gps_nmea s" "pwm_motors (write_action a s) = pwm_motors s"
  "accel_acceleration (write_action a s) = accel_acceleration s"
  by (simp_all add: write_action_def Let_def)

lemma write_action_battery: "battery (write_action a s) = battery s"
  by (simp add: write_action_def Let_def)

lemma read_action_gps:
  "gps_write (snd (read_action s)) = gps_write s" "gps_read (snd (read_action s)) = gps_read s"
  "gps_nmea (snd (read_action s)) = gps_nmea s"
  by (simp_all add: read_action_def Let_def)

section \<open>Battery: what one tick does\<close>

lemma battery_tick_charge:
  "battery (fst (snd (battery_loop now l s))) =
     (if action_type s = Charge
      then (if CHARGE_INTERVAL_MS \<le> battery_elapsed now l \<and> battery s < 100
            then battery s + 1 else battery s)
      else (if DISCHARGE_INTERVAL_MS \<le> battery_elapsed now l \<and> 0 < battery s
            then battery s - 1 else battery s))"
  by (simp add: battery_loop_def battery_elapsed_def Let_def split_beta read_action_fst
      read_action_battery write_action_battery)

lemma battery_tick_action:
  "action_type (fst (snd (battery_loop now l s))) =
     (if action_type s \<noteq> Charge \<and> DISCHARGE_INTERVAL_MS \<le> battery_elapsed now l
         \<and> 0 < battery s \<and> battery s < 15 \<and> action_type s \<noteq> Abort
      then Abort else action_type s)"
  by (simp add: battery_loop_def battery_elapsed_def Let_def split_beta read_action_fst
      read_action_type write_action_type)

lemma battery_tick_kill:
  "Kill 0 \<in> set (snd (snd (battery_loop now l s))) \<longleftrightarrow>
     action_type s \<noteq> Charge \<and> DISCHARGE_INTERVAL_MS \<le> battery_elapsed now l \<and> battery s = 0"
  by (auto simp add: battery_loop_def battery_elapsed_def Let_def split_beta read_action_fst
      word_greater_zero_iff)

lemma battery_tick_last_time:
  "bat_last_time (fst (battery_loop now l s)) =
     (if (if action_type s = Charge then CHARGE_INTERVAL_MS else DISCHARGE_INTERVAL_MS)
           \<le> battery_elapsed now l
      then now else if bat_init l then now else bat_last_time l)"
  by (simp add: battery_loop_def battery_elapsed_def Let_def split_beta read_action_fst)

lemma battery_tick_init: "bat_init (fst (battery_loop now l s)) = False"
  by (simp add: battery_loop_def Let_def split_beta)

lemma battery_tick_bound:
  assumes b: "battery s \<le> 100"
  shows "battery (fst (snd (battery_loop now l s))) \<le> 100"
proof -
  have up: "battery s < 100 \<Longrightarrow> battery s + 1 \<le> 100"
    by (rule inc_le)
  have down: "0 < battery s \<Longrightarrow> battery s - 1 \<le> 100"
  proof -
    assume "0 < battery s"
    then have "unat (battery s - 1) = unat (battery s) - 1"
      by (simp add: unat_minus_one word_gt_0)
    with b show ?thesis
      by (simp add: word_le_nat_alt)
  qed
  show ?thesis
    using b up down by (simp add: battery_tick_charge)
qed

lemma battery_run_bound:
  "battery (snd ls) \<le> 100 \<Longrightarrow> battery (snd (battery_run ts ls)) \<le> 100"
proof (induction ts arbitrary: ls)
  case Nil
  then show ?case by simp
next
  case (Cons t ts)
  obtain now env where t: "t = (now, env)" by (cases t)
  obtain l s where ls: "ls = (l, s)" by (cases ls)
  define s0 where "s0 = (case env of None \<Rightarrow> s | Some a \<Rightarrow> s\<lparr>action_type := a\<rparr>)"
  have "battery s0 = battery s"
    by (simp add: s0_def split: option.split)
  with Cons.prems ls have "battery (fst (snd (battery_loop now l s0))) \<le> 100"
    by (simp add: battery_tick_bound)
  then have "battery (snd (battery_run ts (fst (battery_loop now l s0),
      fst (snd (battery_loop now l s0))))) \<le> 100"
    by (intro Cons.IH) simp
  then show ?case
    by (simp add: t ls s0_def Let_def split_beta)
qed

section \<open>Battery: low-charge abort\<close>

text \<open>
  Claim C2, as the code has it. On a battery tick that reads an action other than Charge
  and Abort, the action becomes Abort exactly when the discharge interval of 2000 ms has
  elapsed and the charge read at the start of the tick is between 1 and 14; otherwise the
  action is left as it was. A charge of exactly 15 never triggers Abort: when the interval
  has elapsed, that tick only stores 14. A charge of 14 triggers Abort, and stores 13, in
  the tick at which the interval has elapsed. A tick before the interval has elapsed
  changes neither the action nor the charge.
\<close>

theorem battery_abort_threshold:
  assumes tick: "battery_loop now l s = (l', s', ev)"
    and nc: "action_type s \<noteq> Charge" and na: "action_type s \<noteq> Abort"
  shows "(action_type s' = Abort \<longleftrightarrow>
            2000 \<le> battery_elapsed now l \<and> 0 < unat (battery s) \<and> unat (battery s) < 15)
       \<and> (action_type s' \<noteq> Abort \<longrightarrow> action_type s' = action_type s)
       \<and> (unat (battery s) = 15 \<longrightarrow> action_type s' = action_type s)
       \<and> (unat (battery s) = 15 \<and> 2000 \<le> battery_elapsed now l \<longrightarrow> unat (battery s') = 14)
       \<and> (unat (battery s) = 14 \<and> 2000 \<le> battery_elapsed now l \<longrightarrow>
            action_type s' = Abort \<and> unat (battery s') = 13)
       \<and> (battery_elapsed now l < 2000 \<longrightarrow>
            action_type s' = action_type s \<and> battery s' = battery s)"
proof -
  have s': "s' = fst (snd (battery_loop now l s))"
    using tick by simp
  have lt: "battery s < 15 \<longleftrightarrow> unat (battery s) < 15" and gt: "0 < battery s \<longleftrightarrow> 0 < unat (battery s)"
    by (simp_all add: word_less_nat_alt)
  have act: "action_type s' =
      (if 2000 \<le> battery_elapsed now l \<and> 0 < unat (battery s) \<and> unat (battery s) < 15
       then Abort else action_type s)"
    using nc na by (simp add: s' battery_tick_action DISCHARGE_INTERVAL_MS_def lt gt)
  have down: "0 < unat (battery s) \<Longrightarrow> unat (battery s - 1) = unat (battery s) - 1"
    by (simp add: unat_minus_one unat_gt_0)
  have bat: "unat (battery s') =
      (if 2000 \<le> battery_elapsed now l \<and> 0 < unat (battery s)
       then unat (battery s) - 1 else unat (battery s))"
    using nc down by (simp add: s' battery_tick_charge DISCHARGE_INTERVAL_MS_def gt)
  have same: "battery_elapsed now l < 2000 \<longrightarrow> battery s' = battery s"
    using nc by (simp add: s' battery_tick_charge DISCHARGE_INTERVAL_MS_def)
  from act bat same na show ?thesis
    by (simp split: if_splits)
qed

text \<open>The threshold theorem at a tick due for discharge that reads 14 while flying.\<close>

theorem battery_abort_threshold_witness:
  "action_type (fresh_shm\<lparr>action_type := Fly, battery := 14\<rparr>) \<noteq> Charge
   \<and> action_type (fresh_shm\<lparr>action_type := Fly, battery := 14\<rparr>) \<noteq> Abort
   \<and> battery_elapsed (at_ms 4000) (battery_started 2000) = 2000
   \<and> action_type (fst (snd (battery_loop (at_ms 4000) (battery_started 2000)
        (fresh_shm\<lparr>action_type := Fly, battery := 14\<rparr>)))) = Abort
   \<and> unat (battery (fst (snd (battery_loop (at_ms 4000) (battery_started 2000)
        (fresh_shm\<lparr>action_type := Fly, battery := 14\<rparr>))))) = 13"
proof -
  have e: "battery_elapsed (at_ms 4000) (battery_started 2000) = 2000"
    by (simp add: battery_elapsed_def battery_started_def elapsed_ms_def at_ms_def
        NANOSECONDS_IN_MS_def)
  have a: "Fly \<noteq> Charge" "Fly \<noteq> Abort"
    by (simp_all add: action_defs)
  show ?thesis
    using e a
      battery_abort_threshold [where now = "at_ms 4000" and l = "battery_started 2000" and s = "fresh_shm\<lparr>action_type := Fly, battery := 14\<rparr>",
        OF triple_collapse]
    by simp
qed

text \<open>
  The claim without the interval fails. A tick that reads 14 only 100 ms after the last
  update leaves the action alone. And the tick that takes the charge from 15 to 14 does
  not abort, nor does the tick one millisecond later: Abort waits for the next discharge.
\<close>

theorem battery_abort_same_tick_counterexample:
  "unat (battery (fresh_shm\<lparr>action_type := Fly, battery := 14\<rparr>)) = 14
   \<and> action_type (fst (snd (battery_loop (at_ms 2000) (battery_started 1900)
        (fresh_shm\<lparr>action_type := Fly, battery := 14\<rparr>)))) \<noteq> Abort
   \<and> unat (battery (snd (battery_run [(at_ms 4000, None), (at_ms 4001, None)]
        (battery_started 2000, fresh_shm\<lparr>action_type := Fly, battery := 15\<rparr>)))) = 14
   \<and> action_type (snd (battery_run [(at_ms 4000, None), (at_ms 4001, None)]
        (battery_started 2000, fresh_shm\<lparr>action_type := Fly, battery := 15\<rparr>))) \<noteq> Abort"
proof -
  have e: "battery_elapsed (at_ms 2000) (battery_started 1900) = 100"
    "battery_elapsed (at_ms 4000) (battery_started 2000) = 2000"
    by (simp_all add: battery_elapsed_def battery_started_def elapsed_ms_def at_ms_def
        NANOSECONDS_IN_MS_def)
  have a: "Fly \<noteq> Charge" "Fly \<noteq> Abort"
    by (simp_all add: action_defs)
  have l1: "bat_last_time (fst (battery_loop (at_ms 4000) (battery_started 2000)
        (fresh_shm\<lparr>action_type := Fly, battery := 15\<rparr>))) = at_ms 4000"
    "bat_init (fst (battery_loop (at_ms 4000) (battery_started 2000)
        (fresh_shm\<lparr>action_type := Fly, battery := 15\<rparr>))) = False"
    using a e by (simp_all add: battery_loop_def Let_def split_beta read_action_fst
        battery_started_def battery_elapsed_def DISCHARGE_INTERVAL_MS_def)
  have e2: "battery_elapsed (at_ms 4001) (fst (battery_loop (at_ms 4000) (battery_started 2000)
        (fresh_shm\<lparr>action_type := Fly, battery := 15\<rparr>))) = 1"
    by (simp add: battery_elapsed_def l1) (simp add: elapsed_ms_def at_ms_def NANOSECONDS_IN_MS_def)
  show ?thesis
    using a e e2
    by (simp add: Let_def split_beta battery_tick_action battery_tick_charge
        DISCHARGE_INTERVAL_MS_def)
qed

section \<open>Ring buffer: steps and loops\<close>

lemma unat_buffer_size: "unat (word_of_nat GPS_BUFFER_SIZE :: 64 word) = GPS_BUFFER_SIZE"
  by (simp add: GPS_BUFFER_SIZE_def)

lemma ring_next_unat:
  fixes w :: "64 word"
  assumes "unat w < GPS_BUFFER_SIZE"
  shows "unat ((w + 1) mod word_of_nat GPS_BUFFER_SIZE) = (unat w + 1) mod GPS_BUFFER_SIZE"
proof -
  have "unat w + 1 < 2 ^ 64"
    using assms by (simp add: GPS_BUFFER_SIZE_def)
  then have "unat (w + 1) = unat w + 1"
    by (simp add: unat_word_ariths)
  then show ?thesis
    by (simp add: unat_mod unat_buffer_size)
qed

lemma ring_next_less:
  fixes w :: "64 word"
  shows "unat ((w + 1) mod word_of_nat GPS_BUFFER_SIZE) < GPS_BUFFER_SIZE"
  by (simp add: unat_mod unat_buffer_size) (simp add: GPS_BUFFER_SIZE_def)

lemma gps_put_Some:
  "gps_put c s = Some s' \<longleftrightarrow>
     unat (gps_write s) < GPS_BUFFER_SIZE \<and>
     s' = s\<lparr>gps_mutex := sem_post (sem_wait (gps_mutex s)),
            gps_nmea := (gps_nmea s)[unat (gps_write s) := c],
            gps_write := (gps_write s + 1) mod word_of_nat GPS_BUFFER_SIZE,
            gps_full := sem_post (gps_full s)\<rparr>"
  by (auto simp: gps_put_def)

lemma telemetry_take_Some:
  "telemetry_take msg s = Some (c, msg', s') \<longleftrightarrow>
     unat (gps_read s) < GPS_BUFFER_SIZE \<and> c = gps_nmea s ! unat (gps_read s) \<and>
     msg' = msg @ [c] \<and>
     s' = s\<lparr>gps_read := (gps_read s + 1) mod word_of_nat GPS_BUFFER_SIZE,
            gps_mutex := sem_post (gps_mutex s),
            gps_empty := sem_post (gps_empty s)\<rparr>"
  by (auto simp: telemetry_take_def Let_def)

lemma gps_write_loop_frame:
  "gps_write_loop bs msg count s = Some (fin, s') \<Longrightarrow>
     gps_read s' = gps_read s \<and>
     (unat (gps_write s) < GPS_BUFFER_SIZE \<longrightarrow> unat (gps_write s') < GPS_BUFFER_SIZE)"
proof (induction bs arbitrary: count s)
  case Nil
  then show ?case by (simp split: if_splits)
next
  case (Cons b bs)
  show ?case
  proof (cases "count < length msg")
    case False
    with Cons.prems show ?thesis by simp
  next
    case True
    obtain r e where w: "sem_timedwait (gps_empty s) b = (r, e)"
      by (cases "sem_timedwait (gps_empty s) b")
    show ?thesis
    proof (cases r)
      case TimedOut
      with Cons.prems True w show ?thesis by auto
    next
      case SemError
      with Cons.prems True w have "gps_write_loop bs msg count (s\<lparr>gps_empty := e\<rparr>) = Some (fin, s')"
        by simp
      from Cons.IH [OF this] show ?thesis by simp
    next
      case Acquired
      with Cons.prems True w obtain s2 where
        p: "gps_put (msg ! count) (s\<lparr>gps_empty := e\<rparr>) = Some s2"
        and rest: "gps_write_loop bs msg (count + 1) s2 = Some (fin, s')"
        by (auto split: option.splits)
      from p have s2: "gps_read s2 = gps_read s" "unat (gps_write s2) < GPS_BUFFER_SIZE"
        by (auto simp: gps_put_Some ring_next_less)
      from Cons.IH [OF rest] s2 show ?thesis by simp
    qed
  qed
qed

lemma telemetry_drain_frame:
  "telemetry_drain bs msg s = Some (x, msg', s') \<Longrightarrow>
     gps_write s' = gps_write s \<and> gps_nmea s' = gps_nmea s \<and>
     (unat (gps_read s) < GPS_BUFFER_SIZE \<longrightarrow> unat (gps_read s') < GPS_BUFFER_SIZE)"
proof (induction bs arbitrary: msg s)
  case Nil
  then show ?case by (simp split: if_splits)
next
  case (Cons b bs)
  obtain bf bm where b: "b = (bf, bm)" by (cases b)
  show ?case
  proof (cases "length msg < MSG_SIZE - 2")
    case False
    with Cons.prems b show ?thesis by simp
  next
    case True
    obtain r f where w: "sem_timedwait (gps_full s) bf = (r, f)"
      by (cases "sem_timedwait (gps_full s) bf")
    obtain rm m where wm: "sem_timedwait (gps_mutex (s\<lparr>gps_full := f\<rparr>)) bm = (rm, m)"
      by (cases "sem_timedwait (gps_mutex (s\<lparr>gps_full := f\<rparr>)) bm")
    show ?thesis
    proof (cases r)
      case TimedOut
      with Cons.prems True w b show ?thesis by (auto simp: write_action_def Let_def)
    next
      case SemError
      with Cons.prems True w b show ?thesis by auto
    next
      case Acquired
      show ?thesis
      proof (cases "rm = Acquired")
        case False
        with Cons.prems True w wm b Acquired show ?thesis by auto
      next
        case rmA: True
        with Cons.prems True w wm b Acquired obtain c m1 s3 where
          t: "telemetry_take msg (s\<lparr>gps_full := f, gps_mutex := m\<rparr>) = Some (c, m1, s3)"
          and rest: "(if c = newline then Some (GotLine, m1, s3) else telemetry_drain bs m1 s3)
                      = Some (x, msg', s')"
          by (auto split: option.splits)
        from t have s3: "gps_write s3 = gps_write s" "gps_nmea s3 = gps_nmea s"
            "unat (gps_read s3) < GPS_BUFFER_SIZE"
          by (auto simp: telemetry_take_Some ring_next_less)
        show ?thesis
        proof (cases "c = newline")
          case True
          with rest s3 show ?thesis by simp
        next
          case False
          with rest have "telemetry_drain bs m1 s3 = Some (x, msg', s')" by simp
          from Cons.IH [OF this] s3 show ?thesis by simp
        qed
      qed
    qed
  qed
qed

lemma ring_store_append: "ring_store (a @ b) r = ring_store b (ring_store a r)"
proof (induction a arbitrary: r)
  case Nil
  then show ?case by (cases r) simp
next
  case (Cons c a)
  obtain buf w where "r = (buf, w)" by (cases r)
  with Cons show ?case by simp
qed

lemma ring_store_no_wrap:
  "length buf = GPS_BUFFER_SIZE \<Longrightarrow> w < GPS_BUFFER_SIZE \<Longrightarrow>
     w + length cs \<le> GPS_BUFFER_SIZE \<Longrightarrow>
     ring_store cs (buf, w) =
       (take w buf @ cs @ drop (w + length cs) buf, (w + length cs) mod GPS_BUFFER_SIZE)"
proof (induction cs arbitrary: buf w)
  case Nil
  then show ?case by simp
next
  case (Cons c cs)
  then have w: "w < length buf" by simp
  have upd: "buf[w := c] = take w buf @ c # drop (Suc w) buf"
    using w by (rule upd_conv_take_nth_drop)
  show ?case
  proof (cases "cs = []")
    case True
    with Cons.prems upd show ?thesis by simp
  next
    case False
    with Cons.prems have w1: "w + 1 < GPS_BUFFER_SIZE"
      by (cases cs) simp_all
    then have m: "(w + 1) mod GPS_BUFFER_SIZE = w + 1" by simp
    have len: "length (buf[w := c]) = GPS_BUFFER_SIZE"
      using Cons.prems by simp
    have "ring_store cs (buf[w := c], w + 1) =
        (take (w + 1) (buf[w := c]) @ cs @ drop (w + 1 + length cs) (buf[w := c]),
         (w + 1 + length cs) mod GPS_BUFFER_SIZE)"
      using Cons.prems w1 by (intro Cons.IH [OF len]) simp_all
    moreover have "take (w + 1) (buf[w := c]) = take w buf @ [c]"
      using w by (simp add: upd take_Suc_conv_app_nth)
    moreover have "drop (w + 1 + length cs) (buf[w := c]) = drop (w + 1 + length cs) buf"
      by simp
    ultimately show ?thesis
      using m by simp
  qed
qed

lemma gps_write_loop_blocked:
  assumes "unat (gps_write s) < GPS_BUFFER_SIZE"
    and "count + gps_empty s < length msg"
    and "gps_empty s < length bs" and "bs ! gps_empty s = Expired"
  shows "\<exists>s'. gps_write_loop bs msg count s = Some (False, s')
            \<and> (gps_nmea s', unat (gps_write s')) =
                ring_store (take (gps_empty s) (drop count msg)) (gps_nmea s, unat (gps_write s))
            \<and> gps_full s' = gps_full s + gps_empty s \<and> gps_empty s' = 0"
  using assms
proof (induction "gps_empty s" arbitrary: bs count s)
  case 0
  then obtain bs' where bs: "bs = Expired # bs'"
    by (cases bs) auto
  from 0 show ?case
    by (simp add: bs sem_timedwait_def)
next
  case (Suc k)
  from Suc.prems Suc.hyps(2) obtain b bs' where bs: "bs = b # bs'"
    by (cases bs) auto
  have e: "gps_empty s = Suc k" using Suc.hyps(2) by simp
  have cnt: "count < length msg" using Suc.prems by simp
  define s2 where "s2 = s\<lparr>gps_empty := k,
      gps_mutex := sem_post (sem_wait (gps_mutex s)),
      gps_nmea := (gps_nmea s)[unat (gps_write s) := msg ! count],
      gps_write := (gps_write s + 1) mod word_of_nat GPS_BUFFER_SIZE,
      gps_full := sem_post (gps_full s)\<rparr>"
  have put: "gps_put (msg ! count) (s\<lparr>gps_empty := k\<rparr>) = Some s2"
    using Suc.prems(1) by (simp add: gps_put_def s2_def)
  have step: "gps_write_loop bs msg count s = gps_write_loop bs' msg (count + 1) s2"
    using cnt put by (simp add: bs sem_timedwait_def e)
  have k: "k = gps_empty s2" by (simp add: s2_def)
  have w2: "unat (gps_write s2) < GPS_BUFFER_SIZE"
    by (simp add: s2_def ring_next_less)
  have "\<exists>s'. gps_write_loop bs' msg (count + 1) s2 = Some (False, s')
            \<and> (gps_nmea s', unat (gps_write s')) =
                ring_store (take (gps_empty s2) (drop (count + 1) msg))
                  (gps_nmea s2, unat (gps_write s2))
            \<and> gps_full s' = gps_full s2 + gps_empty s2 \<and> gps_empty s' = 0"
    using Suc.prems e by (intro Suc.hyps(1) [OF k w2]) (simp_all add: bs k [symmetric])
  moreover have "take (Suc k) (drop count msg) = msg ! count # take k (drop (count + 1) msg)"
    using cnt by (simp add: Cons_nth_drop_Suc [symmetric])
  moreover have "unat (gps_write s2) = (unat (gps_write s) + 1) mod GPS_BUFFER_SIZE"
    using Suc.prems(1) by (simp add: s2_def ring_next_unat)
  moreover have "gps_nmea s2 = (gps_nmea s)[unat (gps_write s) := msg ! count]"
    "gps_full s2 = gps_full s + 1"
    by (simp_all add: s2_def sem_post_def)
  ultimately show ?case
    using step e k by auto
qed

lemma gps_write_loop_room:
  assumes "unat (gps_write s) < GPS_BUFFER_SIZE"
    and "length msg - count \<le> gps_empty s"
    and "length msg - count \<le> length bs"
  shows "\<exists>s'. gps_write_loop bs msg count s = Some (True, s')
            \<and> (gps_nmea s', unat (gps_write s')) =
                ring_store (drop count msg) (gps_nmea s, unat (gps_write s))"
  using assms
proof (induction bs arbitrary: count s)
  case Nil
  then show ?case by simp
next
  case (Cons b bs)
  show ?case
  proof (cases "count < length msg")
    case False
    then show ?thesis by simp
  next
    case cnt: True
    with Cons.prems obtain k where e: "gps_empty s = Suc k"
      by (cases "gps_empty s") auto
    define s2 where "s2 = s\<lparr>gps_empty := k,
        gps_mutex := sem_post (sem_wait (gps_mutex s)),
        gps_nmea := (gps_nmea s)[unat (gps_write s) := msg ! count],
        gps_write := (gps_write s + 1) mod word_of_nat GPS_BUFFER_SIZE,
        gps_full := sem_post (gps_full s)\<rparr>"
    have put: "gps_put (msg ! count) (s\<lparr>gps_empty := k\<rparr>) = Some s2"
      using Cons.prems(1) by (simp add: gps_put_def s2_def)
    have step: "gps_write_loop (b # bs) msg count s = gps_write_loop bs msg (count + 1) s2"
      using cnt put by (simp add: sem_timedwait_def e)
    have w2: "unat (gps_write s2) < GPS_BUFFER_SIZE"
      by (simp add: s2_def ring_next_less)
    have "\<exists>s'. gps_write_loop bs msg (count + 1) s2 = Some (True, s')
            \<and> (gps_nmea s', unat (gps_write s')) =
                ring_store (drop (count + 1) msg) (gps_nmea s2, unat (gps_write s2))"
      using Cons.prems e by (intro Cons.IH [OF w2]) (simp_all add: s2_def)
    moreover have "drop count msg = msg ! count # drop (count + 1) msg"
      using cnt by (simp add: Cons_nth_drop_Suc)
    moreover have "unat (gps_write s2) = (unat (gps_write s) + 1) mod GPS_BUFFER_SIZE"
      using Cons.prems(1) by (simp add: s2_def ring_next_unat)
    moreover have "gps_nmea s2 = (gps_nmea s)[unat (gps_write s) := msg ! count]"
      by (simp add: s2_def)
    ultimately show ?thesis
      using step by auto
  qed
qed

lemma fresh_ring:
  "gps_write fresh_shm = 0" "gps_read fresh_shm = 0" "gps_full fresh_shm = 0"
  "gps_empty fresh_shm = GPS_BUFFER_SIZE" "gps_nmea fresh_shm = replicate GPS_BUFFER_SIZE (CHR 0x00)"
  by (simp_all add: fresh_shm_def init_drone_shm_def init_locks_shm_def zeroed_shm_def)

section \<open>Ring buffer: the indices\<close>

text \<open>
  Claim C8. A producer step stores one character and advances \<^verbatim>\<open>gps.write\<close> by one modulo
  the buffer size of 1280, leaving \<^verbatim>\<open>gps.read\<close> alone; a consumer step reads one character
  and advances \<^verbatim>\<open>gps.read\<close> by one modulo 1280, leaving \<^verbatim>\<open>gps.write\<close> alone. After a step the
  advanced index is below 1280, and from 1279 it wraps to 0. A step is defined whenever its
  index is inside the buffer. A whole producer iteration leaves the read index as it was
  and keeps the write index inside the buffer; a whole consumer iteration leaves the write
  index as it was and keeps the read index inside the buffer.
\<close>

theorem ring_indices_advance:
  "(gps_put c s = Some s1 \<longrightarrow>
      unat (gps_write s1) = (unat (gps_write s) + 1) mod GPS_BUFFER_SIZE
      \<and> unat (gps_write s1) < GPS_BUFFER_SIZE
      \<and> (unat (gps_write s) = GPS_BUFFER_SIZE - 1 \<longrightarrow> gps_write s1 = 0)
      \<and> gps_read s1 = gps_read s)
   \<and> (telemetry_take msg s = Some (d, msg', s2) \<longrightarrow>
      unat (gps_read s2) = (unat (gps_read s) + 1) mod GPS_BUFFER_SIZE
      \<and> unat (gps_read s2) < GPS_BUFFER_SIZE
      \<and> (unat (gps_read s) = GPS_BUFFER_SIZE - 1 \<longrightarrow> gps_read s2 = 0)
      \<and> gps_write s2 = gps_write s)
   \<and> (unat (gps_write s) < GPS_BUFFER_SIZE \<longrightarrow> gps_put c s \<noteq> None)
   \<and> (unat (gps_read s) < GPS_BUFFER_SIZE \<longrightarrow> telemetry_take msg s \<noteq> None)
   \<and> (gps_loop bs i s = Some (i', s3) \<longrightarrow>
      gps_read s3 = gps_read s
      \<and> (unat (gps_write s) < GPS_BUFFER_SIZE \<longrightarrow> unat (gps_write s3) < GPS_BUFFER_SIZE))
   \<and> (telemetry_gps ps hdr s = Some (x, m, s4) \<longrightarrow>
      gps_write s4 = gps_write s
      \<and> (unat (gps_read s) < GPS_BUFFER_SIZE \<longrightarrow> unat (gps_read s4) < GPS_BUFFER_SIZE))"
proof -
  have wrap: "unat w = GPS_BUFFER_SIZE - 1 \<Longrightarrow> (w + 1) mod word_of_nat GPS_BUFFER_SIZE = 0"
    for w :: "64 word"
  proof -
    assume a: "unat w = GPS_BUFFER_SIZE - 1"
    then have "unat w < GPS_BUFFER_SIZE" by (simp add: GPS_BUFFER_SIZE_def)
    then have "unat ((w + 1) mod word_of_nat GPS_BUFFER_SIZE) = (unat w + 1) mod GPS_BUFFER_SIZE"
      by (rule ring_next_unat)
    with a have "unat ((w + 1) mod word_of_nat GPS_BUFFER_SIZE) = 0"
      by (simp add: GPS_BUFFER_SIZE_def)
    then show ?thesis by (simp add: unat_eq_0)
  qed
  have put: "gps_put c s = Some s1 \<longrightarrow>
      unat (gps_write s1) = (unat (gps_write s) + 1) mod GPS_BUFFER_SIZE
      \<and> unat (gps_write s1) < GPS_BUFFER_SIZE
      \<and> (unat (gps_write s) = GPS_BUFFER_SIZE - 1 \<longrightarrow> gps_write s1 = 0)
      \<and> gps_read s1 = gps_read s"
    by (auto simp: gps_put_Some ring_next_unat ring_next_less wrap)
  have take: "telemetry_take msg s = Some (d, msg', s2) \<longrightarrow>
      unat (gps_read s2) = (unat (gps_read s) + 1) mod GPS_BUFFER_SIZE
      \<and> unat (gps_read s2) < GPS_BUFFER_SIZE
      \<and> (unat (gps_read s) = GPS_BUFFER_SIZE - 1 \<longrightarrow> gps_read s2 = 0)
      \<and> gps_write s2 = gps_write s"
    by (auto simp: telemetry_take_Some ring_next_unat ring_next_less wrap)
  have defd: "(unat (gps_write s) < GPS_BUFFER_SIZE \<longrightarrow> gps_put c s \<noteq> None)
      \<and> (unat (gps_read s) < GPS_BUFFER_SIZE \<longrightarrow> telemetry_take msg s \<noteq> None)"
    by (simp add: gps_put_def telemetry_take_def Let_def)
  have prod: "gps_loop bs i s = Some (i', s3) \<longrightarrow>
      gps_read s3 = gps_read s
      \<and> (unat (gps_write s) < GPS_BUFFER_SIZE \<longrightarrow> unat (gps_write s3) < GPS_BUFFER_SIZE)"
  proof
    assume "gps_loop bs i s = Some (i', s3)"
    then obtain fin s' where l: "gps_write_loop bs (nmea_samples ! i) 0 s = Some (fin, s')"
      and s3: "s3 = s'\<lparr>wdg := (wdg s')\<lparr>wdg_gps_ctrl := wdg_gps_ctrl (wdg s') + 1\<rparr>\<rparr>"
      by (auto simp: gps_loop_def split: if_splits option.splits)
    from gps_write_loop_frame [OF l] show "gps_read s3 = gps_read s
      \<and> (unat (gps_write s) < GPS_BUFFER_SIZE \<longrightarrow> unat (gps_write s3) < GPS_BUFFER_SIZE)"
      by (simp add: s3)
  qed
  have cons: "telemetry_gps ps hdr s = Some (x, m, s4) \<longrightarrow>
      gps_write s4 = gps_write s
      \<and> (unat (gps_read s) < GPS_BUFFER_SIZE \<longrightarrow> unat (gps_read s4) < GPS_BUFFER_SIZE)"
  proof
    assume g: "telemetry_gps ps hdr s = Some (x, m, s4)"
    show "gps_write s4 = gps_write s
      \<and> (unat (gps_read s) < GPS_BUFFER_SIZE \<longrightarrow> unat (gps_read s4) < GPS_BUFFER_SIZE)"
    proof (cases "action_type s = SampleGPS")
      case False
      with g have "s4 = snd (read_action s)"
        by (simp add: telemetry_gps_def split_beta read_action_fst)
      then show ?thesis by (simp add: read_action_gps)
    next
      case True
      with g obtain e m' where
        "telemetry_drain ps (BUF_APPEND hdr (''GPS {'' @ [newline])) (snd (read_action s))
           = Some (e, m', s4)"
        by (auto simp: telemetry_gps_def split_beta read_action_fst split: option.splits)
      from telemetry_drain_frame [OF this] show ?thesis
        by (simp add: read_action_gps)
    qed
  qed
  from put take defd prod cons show ?thesis by blast
qed

text \<open>
  The theorem at the last slot of the ring, for both actors, and on one iteration of each
  actor that times out at once.
\<close>

theorem ring_indices_advance_witness:
  "gps_put (CHR ''$'') (fresh_shm\<lparr>gps_write := 1279\<rparr>) \<noteq> None
   \<and> gps_write (the (gps_put (CHR ''$'') (fresh_shm\<lparr>gps_write := 1279\<rparr>))) = 0
   \<and> telemetry_take [] (fresh_shm\<lparr>gps_read := 1279\<rparr>) \<noteq> None
   \<and> gps_read (snd (snd (the (telemetry_take [] (fresh_shm\<lparr>gps_read := 1279\<rparr>))))) = 0
   \<and> gps_loop [Expired] 0 (fresh_shm\<lparr>gps_empty := 0\<rparr>) \<noteq> None
   \<and> gps_read (snd (the (gps_loop [Expired] 0 (fresh_shm\<lparr>gps_empty := 0\<rparr>)))) = 0
   \<and> telemetry_gps [(Expired, Expired)] [] (fresh_shm\<lparr>action_type := SampleGPS\<rparr>) \<noteq> None
   \<and> gps_write (snd (snd (the (telemetry_gps [(Expired, Expired)] []
         (fresh_shm\<lparr>action_type := SampleGPS\<rparr>))))) = 0"
proof -
  have n: "unat (1279 :: 64 word) = GPS_BUFFER_SIZE - 1" "unat (1279 :: 64 word) < GPS_BUFFER_SIZE"
    by (simp_all add: GPS_BUFFER_SIZE_def)
  have f: "gps_read fresh_shm = 0" "gps_write fresh_shm = 0" "gps_full fresh_shm = 0"
    by (simp_all add: fresh_shm_def init_drone_shm_def init_locks_shm_def zeroed_shm_def)
  obtain s1 where p: "gps_put (CHR ''$'') (fresh_shm\<lparr>gps_write := 1279\<rparr>) = Some s1"
    using n by (simp add: gps_put_def)
  obtain d msg' s2 where t: "telemetry_take [] (fresh_shm\<lparr>gps_read := 1279\<rparr>) = Some (d, msg', s2)"
    using n by (simp add: telemetry_take_def Let_def)
  obtain i' s3 where g: "gps_loop [Expired] 0 (fresh_shm\<lparr>gps_empty := 0\<rparr>) = Some (i', s3)"
    by (simp add: gps_loop_def nmea_samples_count_def nmea_samples_def sem_timedwait_def)
  obtain x m s4 where
    c: "telemetry_gps [(Expired, Expired)] [] (fresh_shm\<lparr>action_type := SampleGPS\<rparr>) = Some (x, m, s4)"
    by (simp add: telemetry_gps_def split_beta read_action_fst read_action_def Let_def
        BUF_APPEND_def MSG_SIZE_def sem_timedwait_def f)
  from n p
    ring_indices_advance [where c = "CHR ''$''" and s = "fresh_shm\<lparr>gps_write := 1279\<rparr>"
      and ?s1.0 = s1]
  have "gps_write s1 = 0" by simp
  moreover from n t
    ring_indices_advance [where msg = "[]" and s = "fresh_shm\<lparr>gps_read := 1279\<rparr>"
      and d = d and msg' = msg' and ?s2.0 = s2]
  have "gps_read s2 = 0" by simp
  moreover from g f
    ring_indices_advance [where bs = "[Expired]" and i = 0 and s = "fresh_shm\<lparr>gps_empty := 0\<rparr>"
      and i' = i' and ?s3.0 = s3]
  have "gps_read s3 = 0" by simp
  moreover from c f
    ring_indices_advance [where ps = "[(Expired, Expired)]" and hdr = "[]"
      and s = "fresh_shm\<lparr>action_type := SampleGPS\<rparr>" and x = x and m = m and ?s4.0 = s4]
  have "gps_write s4 = 0" by simp
  ultimately show ?thesis using p t g c by simp
qed

section \<open>GPS producer: timeout in the middle of a sample\<close>

lemma gps_write_loop_any:
  assumes "unat (gps_write s) < GPS_BUFFER_SIZE"
    and "gps_write_loop bs msg count s = Some (fin, s')"
    and "count \<le> length msg"
  shows "\<exists>k. count + k \<le> length msg \<and> (fin \<longleftrightarrow> count + k = length msg)
            \<and> (gps_nmea s', unat (gps_write s')) =
                ring_store (take k (drop count msg)) (gps_nmea s, unat (gps_write s))
            \<and> gps_full s' = gps_full s + k"
  using assms
proof (induction bs arbitrary: count s)
  case Nil
  then have "fin" "s' = s" "count = length msg"
    by (auto split: if_splits)
  then show ?case by (intro exI [of _ 0]) simp
next
  case (Cons b bs)
  show ?case
  proof (cases "count < length msg")
    case False
    with Cons.prems have "fin" "s' = s" "count = length msg"
      by auto
    then show ?thesis by (intro exI [of _ 0]) simp
  next
    case cnt: True
    obtain r e where w: "sem_timedwait (gps_empty s) b = (r, e)"
      by (cases "sem_timedwait (gps_empty s) b")
    show ?thesis
    proof (cases r)
      case TimedOut
      with Cons.prems(2) cnt w have "\<not> fin" "s' = s\<lparr>gps_empty := e\<rparr>"
        by auto
      with cnt show ?thesis by (intro exI [of _ 0]) simp
    next
      case SemError
      with Cons.prems(2) cnt w
      have "gps_write_loop bs msg count (s\<lparr>gps_empty := e\<rparr>) = Some (fin, s')"
        by simp
      from Cons.IH [OF _ this Cons.prems(3)] Cons.prems(1) show ?thesis by simp
    next
      case Acquired
      define s2 where "s2 = s\<lparr>gps_empty := e,
          gps_mutex := sem_post (sem_wait (gps_mutex s)),
          gps_nmea := (gps_nmea s)[unat (gps_write s) := msg ! count],
          gps_write := (gps_write s + 1) mod word_of_nat GPS_BUFFER_SIZE,
          gps_full := sem_post (gps_full s)\<rparr>"
      have put: "gps_put (msg ! count) (s\<lparr>gps_empty := e\<rparr>) = Some s2"
        using Cons.prems(1) by (simp add: gps_put_def s2_def)
      with Cons.prems(2) cnt w Acquired
      have rest: "gps_write_loop bs msg (count + 1) s2 = Some (fin, s')"
        by simp
      have w2: "unat (gps_write s2) < GPS_BUFFER_SIZE"
        by (simp add: s2_def ring_next_less)
      from Cons.IH [OF w2 rest] cnt obtain k where
        k: "count + 1 + k \<le> length msg" "fin \<longleftrightarrow> count + 1 + k = length msg"
          "(gps_nmea s', unat (gps_write s')) =
             ring_store (take k (drop (count + 1) msg)) (gps_nmea s2, unat (gps_write s2))"
          "gps_full s' = gps_full s2 + k"
        by auto
      have d: "take (Suc k) (drop count msg) = msg ! count # take k (drop (count + 1) msg)"
        using cnt by (simp add: Cons_nth_drop_Suc [symmetric])
      have u: "unat (gps_write s2) = (unat (gps_write s) + 1) mod GPS_BUFFER_SIZE"
        using Cons.prems(1) by (simp add: s2_def ring_next_unat)
      have n: "gps_nmea s2 = (gps_nmea s)[unat (gps_write s) := msg ! count]"
        "gps_full s2 = gps_full s + 1"
        by (simp_all add: s2_def sem_post_def)
      show ?thesis
        using k d u n by (intro exI [of _ "Suc k"]) simp
    qed
  qed
qed

lemma nmea_facts: "nmea_samples_count = 4"
  by (simp add: nmea_samples_count_def nmea_samples_def)

lemma next_index_differs:
  "i < nmea_samples_count \<Longrightarrow> (i + 1) mod nmea_samples_count \<noteq> i"
  unfolding nmea_facts by presburger

lemma gps_loop_any:
  assumes idx: "sample_index < nmea_samples_count"
    and w: "unat (gps_write s) < GPS_BUFFER_SIZE"
    and run: "gps_loop bs sample_index s = Some (i', s')"
  shows "\<exists>k. k \<le> length (nmea_samples ! sample_index)
      \<and> (i' = sample_index \<longleftrightarrow> k < length (nmea_samples ! sample_index))
      \<and> (i' = (sample_index + 1) mod nmea_samples_count
            \<longleftrightarrow> k = length (nmea_samples ! sample_index))
      \<and> (gps_nmea s', unat (gps_write s')) =
           ring_store (take k (nmea_samples ! sample_index)) (gps_nmea s, unat (gps_write s))
      \<and> gps_full s' = gps_full s + k
      \<and> gps_read s' = gps_read s"
proof -
  define smp where "smp = nmea_samples ! sample_index"
  from run idx obtain fin s0 where l: "gps_write_loop bs smp 0 s = Some (fin, s0)"
    and i': "i' = (if fin then (sample_index + 1) mod nmea_samples_count else sample_index)"
    and s': "s' = s0\<lparr>wdg := (wdg s0)\<lparr>wdg_gps_ctrl := wdg_gps_ctrl (wdg s0) + 1\<rparr>\<rparr>"
    by (auto simp: gps_loop_def smp_def split: option.splits)
  from gps_write_loop_any [OF w l] obtain k where
    k: "k \<le> length smp" "fin \<longleftrightarrow> k = length smp"
      "(gps_nmea s0, unat (gps_write s0)) = ring_store (take k smp) (gps_nmea s, unat (gps_write s))"
      "gps_full s0 = gps_full s + k"
    by auto
  have rd: "gps_read s0 = gps_read s"
    using gps_write_loop_frame [OF l] by simp
  have ne: "(sample_index + 1) mod nmea_samples_count \<noteq> sample_index"
    using idx by (rule next_index_differs)
  show ?thesis
    unfolding smp_def [symmetric]
    using k rd ne by (intro exI [of _ k]) (auto simp: i' s')
qed

lemma late_post_run:
  "\<exists>s0. gps_write_loop [Expired, Expired, Expired, Expired, Expired, Posted, Expired]
          (nmea_samples ! 0) 0 (fresh_shm\<lparr>gps_empty := 5\<rparr>) = Some (False, s0)
        \<and> gps_full s0 = 6"
  by (simp add: nmea_samples_def gps_put_def sem_timedwait_def sem_post_def fresh_ring(1,3)
      GPS_BUFFER_SIZE_def)

text \<open>
  Claim C10. Take any producer iteration whose write loop is left by a timeout of the wait
  on \<^verbatim>\<open>empty\<close>, whatever waits were served or interrupted before. The iteration returns with
  the sample index unchanged. The \<open>k\<close> characters written before the timeout, fewer than the
  sample has, are in the ring from the old write index on and are counted in \<^verbatim>\<open>full\<close>, so
  the consumer can take them; the read index is untouched. Whatever the consumer does in
  between, every following iteration starts the same sample again at its first character
  right behind the partial one: when it returns, the ring holds the \<open>k\<close> characters followed
  by the first \<open>j\<close> characters of the same sample, with \<open>j\<close> the whole length exactly when the
  sample index has advanced and less exactly when it has stayed. In particular, when the
  iteration starts with fewer free slots than the sample has characters and the wait that
  then blocks times out, it does return, with as many characters written as there were
  free slots; and a following iteration that finds room for the whole sample returns with
  the prefix followed by the complete sample in the ring.
\<close>

theorem gps_timeout_restarts_sample:
  assumes idx: "sample_index < nmea_samples_count"
    and w: "unat (gps_write s) < GPS_BUFFER_SIZE"
  shows "(\<forall>s0. gps_write_loop bs (nmea_samples ! sample_index) 0 s = Some (False, s0) \<longrightarrow>
      (\<exists>s1 k. gps_loop bs sample_index s = Some (sample_index, s1)
         \<and> k < length (nmea_samples ! sample_index)
         \<and> (gps_nmea s1, unat (gps_write s1)) =
              ring_store (take k (nmea_samples ! sample_index)) (gps_nmea s, unat (gps_write s))
         \<and> gps_full s1 = gps_full s + k
         \<and> gps_read s1 = gps_read s
         \<and> (\<forall>s2 bs2 i3 s3. gps_nmea s2 = gps_nmea s1 \<and> gps_write s2 = gps_write s1
                \<and> gps_loop bs2 sample_index s2 = Some (i3, s3) \<longrightarrow>
              (\<exists>j. j \<le> length (nmea_samples ! sample_index)
                 \<and> (i3 = sample_index \<longleftrightarrow> j < length (nmea_samples ! sample_index))
                 \<and> (i3 = (sample_index + 1) mod nmea_samples_count
                       \<longleftrightarrow> j = length (nmea_samples ! sample_index))
                 \<and> (gps_nmea s3, unat (gps_write s3)) =
                      ring_store
                        (take k (nmea_samples ! sample_index)
                           @ take j (nmea_samples ! sample_index))
                        (gps_nmea s, unat (gps_write s))))))
   \<and> (gps_empty s < length (nmea_samples ! sample_index)
        \<and> gps_empty s < length bs \<and> bs ! gps_empty s = Expired \<longrightarrow>
      (\<exists>s1. gps_loop bs sample_index s = Some (sample_index, s1)
         \<and> (gps_nmea s1, unat (gps_write s1)) =
              ring_store (take (gps_empty s) (nmea_samples ! sample_index))
                (gps_nmea s, unat (gps_write s))
         \<and> gps_full s1 = gps_full s + gps_empty s
         \<and> gps_read s1 = gps_read s
         \<and> (\<forall>s2 bs2. gps_nmea s2 = gps_nmea s1 \<and> gps_write s2 = gps_write s1
                \<and> length (nmea_samples ! sample_index) \<le> gps_empty s2
                \<and> length (nmea_samples ! sample_index) \<le> length bs2 \<longrightarrow>
              (\<exists>s3. gps_loop bs2 sample_index s2
                       = Some ((sample_index + 1) mod nmea_samples_count, s3)
                 \<and> (gps_nmea s3, unat (gps_write s3)) =
                      ring_store
                        (take (gps_empty s) (nmea_samples ! sample_index)
                           @ nmea_samples ! sample_index)
                        (gps_nmea s, unat (gps_write s))))))"
proof (intro conjI allI impI)
  define smp where "smp = nmea_samples ! sample_index"
  fix s0
  assume l: "gps_write_loop bs (nmea_samples ! sample_index) 0 s = Some (False, s0)"
  define s1 where "s1 = s0\<lparr>wdg := (wdg s0)\<lparr>wdg_gps_ctrl := wdg_gps_ctrl (wdg s0) + 1\<rparr>\<rparr>"
  have loop: "gps_loop bs sample_index s = Some (sample_index, s1)"
    using idx l by (simp add: gps_loop_def s1_def)
  from gps_loop_any [OF idx w loop] obtain k where
    k: "k < smp_len" "(gps_nmea s1, unat (gps_write s1)) =
          ring_store (take k smp) (gps_nmea s, unat (gps_write s))"
      "gps_full s1 = gps_full s + k" "gps_read s1 = gps_read s"
    if "smp_len = length smp" for smp_len
    by (auto simp: smp_def)
  have w1: "unat (gps_write s1) < GPS_BUFFER_SIZE"
    using gps_write_loop_frame [OF l] w by (simp add: s1_def)
  have nxt: "\<exists>j. j \<le> length smp
                 \<and> (i3 = sample_index \<longleftrightarrow> j < length smp)
                 \<and> (i3 = (sample_index + 1) mod nmea_samples_count \<longleftrightarrow> j = length smp)
                 \<and> (gps_nmea s3, unat (gps_write s3)) =
                      ring_store (take k smp @ take j smp) (gps_nmea s, unat (gps_write s))"
    if a: "gps_nmea s2 = gps_nmea s1 \<and> gps_write s2 = gps_write s1
            \<and> gps_loop bs2 sample_index s2 = Some (i3, s3)" for s2 bs2 i3 s3
  proof -
    from a w1 have w2: "unat (gps_write s2) < GPS_BUFFER_SIZE" by simp
    from a have run2: "gps_loop bs2 sample_index s2 = Some (i3, s3)" by simp
    from gps_loop_any [OF idx w2 run2] obtain j where
      j: "j \<le> length smp" "i3 = sample_index \<longleftrightarrow> j < length smp"
        "i3 = (sample_index + 1) mod nmea_samples_count \<longleftrightarrow> j = length smp"
        "(gps_nmea s3, unat (gps_write s3)) =
           ring_store (take j smp) (gps_nmea s2, unat (gps_write s2))"
      by (auto simp: smp_def)
    have "ring_store (take j smp) (gps_nmea s2, unat (gps_write s2)) =
        ring_store (take k smp @ take j smp) (gps_nmea s, unat (gps_write s))"
      using a k(2) [OF refl] by (simp add: ring_store_append)
    with j show ?thesis by (intro exI [of _ j]) simp
  qed
  from loop k [OF refl] nxt
  show "\<exists>s1 k. gps_loop bs sample_index s = Some (sample_index, s1)
         \<and> k < length (nmea_samples ! sample_index)
         \<and> (gps_nmea s1, unat (gps_write s1)) =
              ring_store (take k (nmea_samples ! sample_index)) (gps_nmea s, unat (gps_write s))
         \<and> gps_full s1 = gps_full s + k
         \<and> gps_read s1 = gps_read s
         \<and> (\<forall>s2 bs2 i3 s3. gps_nmea s2 = gps_nmea s1 \<and> gps_write s2 = gps_write s1
                \<and> gps_loop bs2 sample_index s2 = Some (i3, s3) \<longrightarrow>
              (\<exists>j. j \<le> length (nmea_samples ! sample_index)
                 \<and> (i3 = sample_index \<longleftrightarrow> j < length (nmea_samples ! sample_index))
                 \<and> (i3 = (sample_index + 1) mod nmea_samples_count
                       \<longleftrightarrow> j = length (nmea_samples ! sample_index))
                 \<and> (gps_nmea s3, unat (gps_write s3)) =
                      ring_store
                        (take k (nmea_samples ! sample_index)
                           @ take j (nmea_samples ! sample_index))
                        (gps_nmea s, unat (gps_write s))))"
    unfolding smp_def [symmetric] by blast
next
  define smp where "smp = nmea_samples ! sample_index"
  assume a: "gps_empty s < length (nmea_samples ! sample_index)
        \<and> gps_empty s < length bs \<and> bs ! gps_empty s = Expired"
  from gps_write_loop_blocked [of s 0 smp bs] w a
  obtain s' where l: "gps_write_loop bs smp 0 s = Some (False, s')"
    and ring: "(gps_nmea s', unat (gps_write s')) =
        ring_store (take (gps_empty s) smp) (gps_nmea s, unat (gps_write s))"
    and full: "gps_full s' = gps_full s + gps_empty s"
    by (auto simp: smp_def)
  define s1 where "s1 = s'\<lparr>wdg := (wdg s')\<lparr>wdg_gps_ctrl := wdg_gps_ctrl (wdg s') + 1\<rparr>\<rparr>"
  have loop: "gps_loop bs sample_index s = Some (sample_index, s1)"
    using idx l by (simp add: gps_loop_def smp_def s1_def)
  have rd: "gps_read s1 = gps_read s" and w1: "unat (gps_write s1) < GPS_BUFFER_SIZE"
    using gps_write_loop_frame [OF l] w by (simp_all add: s1_def)
  have ring1: "(gps_nmea s1, unat (gps_write s1)) =
        ring_store (take (gps_empty s) smp) (gps_nmea s, unat (gps_write s))"
    using ring by (simp add: s1_def)
  have nxt: "\<exists>s3. gps_loop bs2 sample_index s2
                   = Some ((sample_index + 1) mod nmea_samples_count, s3)
             \<and> (gps_nmea s3, unat (gps_write s3)) =
                  ring_store (take (gps_empty s) smp @ smp) (gps_nmea s, unat (gps_write s))"
    if a: "gps_nmea s2 = gps_nmea s1 \<and> gps_write s2 = gps_write s1
            \<and> length smp \<le> gps_empty s2 \<and> length smp \<le> length bs2" for s2 bs2
  proof -
    from a w1 have w2: "unat (gps_write s2) < GPS_BUFFER_SIZE" by simp
    from gps_write_loop_room [of s2 smp 0 bs2] w2 a
    obtain s'' where l2: "gps_write_loop bs2 smp 0 s2 = Some (True, s'')"
      and ring2: "(gps_nmea s'', unat (gps_write s'')) =
          ring_store smp (gps_nmea s2, unat (gps_write s2))"
      by auto
    have "gps_loop bs2 sample_index s2 = Some ((sample_index + 1) mod nmea_samples_count,
        s''\<lparr>wdg := (wdg s'')\<lparr>wdg_gps_ctrl := wdg_gps_ctrl (wdg s'') + 1\<rparr>\<rparr>)"
      using idx l2 by (simp add: gps_loop_def smp_def)
    moreover have "ring_store smp (gps_nmea s2, unat (gps_write s2)) =
        ring_store (take (gps_empty s) smp @ smp) (gps_nmea s, unat (gps_write s))"
      using a ring1 by (simp add: ring_store_append)
    ultimately show ?thesis
      using ring2 by simp
  qed
  have full1: "gps_full s1 = gps_full s + gps_empty s"
    using full by (simp add: s1_def)
  from loop ring1 full1 rd nxt
  show "\<exists>s1. gps_loop bs sample_index s = Some (sample_index, s1)
         \<and> (gps_nmea s1, unat (gps_write s1)) =
              ring_store (take (gps_empty s) (nmea_samples ! sample_index))
                (gps_nmea s, unat (gps_write s))
         \<and> gps_full s1 = gps_full s + gps_empty s
         \<and> gps_read s1 = gps_read s
         \<and> (\<forall>s2 bs2. gps_nmea s2 = gps_nmea s1 \<and> gps_write s2 = gps_write s1
                \<and> length (nmea_samples ! sample_index) \<le> gps_empty s2
                \<and> length (nmea_samples ! sample_index) \<le> length bs2 \<longrightarrow>
              (\<exists>s3. gps_loop bs2 sample_index s2
                       = Some ((sample_index + 1) mod nmea_samples_count, s3)
                 \<and> (gps_nmea s3, unat (gps_write s3)) =
                      ring_store
                        (take (gps_empty s) (nmea_samples ! sample_index)
                           @ nmea_samples ! sample_index)
                        (gps_nmea s, unat (gps_write s))))"
    unfolding smp_def [symmetric] by blast
qed

text \<open>
  The theorem from the fresh region with five free slots. When the sixth wait times out,
  the ring then starts with five characters of the first sample followed by the whole
  first sample. When the sixth wait is served by the consumer and the seventh times out,
  six characters are written and the sample index stays at 0.
\<close>

theorem gps_timeout_restarts_sample_witness:
  "\<exists>s1 s3 t1. gps_loop (replicate 6 Expired) 0 (fresh_shm\<lparr>gps_empty := 5\<rparr>) = Some (0, s1)
     \<and> gps_full s1 = 5
     \<and> gps_loop (replicate 66 Expired) 0 (s1\<lparr>gps_empty := GPS_BUFFER_SIZE\<rparr>) = Some (1, s3)
     \<and> take 71 (gps_nmea s3) = ''$GPGG'' @ nmea_samples ! 0
     \<and> unat (gps_write s3) = 71
     \<and> gps_loop [Expired, Expired, Expired, Expired, Expired, Posted, Expired] 0
          (fresh_shm\<lparr>gps_empty := 5\<rparr>) = Some (0, t1)
     \<and> gps_full t1 = 6
     \<and> take 6 (gps_nmea t1) = ''$GPGGA''"
proof -
  have len: "length (nmea_samples ! 0) = 66"
    by (simp add: nmea_samples_def)
  have cnt: "nmea_samples_count = 4"
    by (simp add: nmea_samples_count_def nmea_samples_def)
  have pre: "take 5 (nmea_samples ! 0) = ''$GPGG''" "take 6 (nmea_samples ! 0) = ''$GPGGA''"
    by (simp_all add: nmea_samples_def)
  have h: "0 < nmea_samples_count"
    "unat (gps_write (fresh_shm\<lparr>gps_empty := 5\<rparr>)) < GPS_BUFFER_SIZE"
    by (simp_all add: cnt fresh_ring GPS_BUFFER_SIZE_def)
  have b: "gps_empty (fresh_shm\<lparr>gps_empty := 5\<rparr>) < length (nmea_samples ! 0)
      \<and> gps_empty (fresh_shm\<lparr>gps_empty := 5\<rparr>) < length (replicate 6 Expired)
      \<and> replicate 6 Expired ! gps_empty (fresh_shm\<lparr>gps_empty := 5\<rparr>) = Expired"
    by (simp add: len)
  from gps_timeout_restarts_sample [OF h, of "replicate 6 Expired", THEN conjunct2, rule_format, OF b]
  obtain s1 where 1: "gps_loop (replicate 6 Expired) 0 (fresh_shm\<lparr>gps_empty := 5\<rparr>) = Some (0, s1)"
    and 2: "gps_full s1 = gps_full (fresh_shm\<lparr>gps_empty := 5\<rparr>) + gps_empty (fresh_shm\<lparr>gps_empty := 5\<rparr>)"
    and 3: "\<forall>s2 bs2. gps_nmea s2 = gps_nmea s1 \<and> gps_write s2 = gps_write s1
            \<and> length (nmea_samples ! 0) \<le> gps_empty s2
            \<and> length (nmea_samples ! 0) \<le> length bs2 \<longrightarrow>
          (\<exists>s3. gps_loop bs2 0 s2 = Some ((0 + 1) mod nmea_samples_count, s3)
             \<and> (gps_nmea s3, unat (gps_write s3)) =
                  ring_store (take (gps_empty (fresh_shm\<lparr>gps_empty := 5\<rparr>)) (nmea_samples ! 0)
                       @ nmea_samples ! 0)
                    (gps_nmea (fresh_shm\<lparr>gps_empty := 5\<rparr>),
                     unat (gps_write (fresh_shm\<lparr>gps_empty := 5\<rparr>))))"
    by blast
  have 2: "gps_full s1 = 5"
    using 2 by (simp add: fresh_ring)
  from 3 [rule_format, of "s1\<lparr>gps_empty := GPS_BUFFER_SIZE\<rparr>" "replicate 66 Expired"]
  obtain s3 where 4: "gps_loop (replicate 66 Expired) 0 (s1\<lparr>gps_empty := GPS_BUFFER_SIZE\<rparr>) = Some (1, s3)"
    and 5: "(gps_nmea s3, unat (gps_write s3)) =
        ring_store (''$GPGG'' @ nmea_samples ! 0) (replicate GPS_BUFFER_SIZE (CHR 0x00), 0)"
    by (auto simp: len cnt pre fresh_ring GPS_BUFFER_SIZE_def simp del: replicate.simps)
  have "ring_store (''$GPGG'' @ nmea_samples ! 0) (replicate GPS_BUFFER_SIZE (CHR 0x00), 0)
      = (take 0 (replicate GPS_BUFFER_SIZE (CHR 0x00)) @ (''$GPGG'' @ nmea_samples ! 0)
           @ drop (0 + length (''$GPGG'' @ nmea_samples ! 0)) (replicate GPS_BUFFER_SIZE (CHR 0x00)),
         (0 + length (''$GPGG'' @ nmea_samples ! 0)) mod GPS_BUFFER_SIZE)"
    by (rule ring_store_no_wrap) (simp_all add: len GPS_BUFFER_SIZE_def)
  with 5 have "gps_nmea s3 = (''$GPGG'' @ nmea_samples ! 0) @ drop 71 (replicate GPS_BUFFER_SIZE (CHR 0x00))"
    and "unat (gps_write s3) = 71"
    by (simp_all add: len GPS_BUFFER_SIZE_def)
  then have 6: "take 71 (gps_nmea s3) = ''$GPGG'' @ nmea_samples ! 0" "unat (gps_write s3) = 71"
    by (simp_all add: len)
  from late_post_run obtain s0 where
    l: "gps_write_loop [Expired, Expired, Expired, Expired, Expired, Posted, Expired]
          (nmea_samples ! 0) 0 (fresh_shm\<lparr>gps_empty := 5\<rparr>) = Some (False, s0)"
    and f0: "gps_full s0 = 6"
    by blast
  from gps_timeout_restarts_sample [OF h,
      of "[Expired, Expired, Expired, Expired, Expired, Posted, Expired]",
      THEN conjunct1, rule_format, OF l]
  obtain t1 k where 7: "gps_loop [Expired, Expired, Expired, Expired, Expired, Posted, Expired] 0
        (fresh_shm\<lparr>gps_empty := 5\<rparr>) = Some (0, t1)"
    and 8: "(gps_nmea t1, unat (gps_write t1)) =
        ring_store (take k (nmea_samples ! 0))
          (gps_nmea (fresh_shm\<lparr>gps_empty := 5\<rparr>), unat (gps_write (fresh_shm\<lparr>gps_empty := 5\<rparr>)))"
    and 9: "gps_full t1 = gps_full (fresh_shm\<lparr>gps_empty := 5\<rparr>) + k"
    by blast
  have "gps_loop [Expired, Expired, Expired, Expired, Expired, Posted, Expired] 0
        (fresh_shm\<lparr>gps_empty := 5\<rparr>)
      = Some (0, s0\<lparr>wdg := (wdg s0)\<lparr>wdg_gps_ctrl := wdg_gps_ctrl (wdg s0) + 1\<rparr>\<rparr>)"
    using l by (simp add: gps_loop_def cnt)
  with 7 f0 have 10: "gps_full t1 = 6" by auto
  with 9 have k: "k = 6" by (simp add: fresh_ring)
  have "ring_store (''$GPGGA'') (replicate GPS_BUFFER_SIZE (CHR 0x00), 0)
      = (take 0 (replicate GPS_BUFFER_SIZE (CHR 0x00)) @ ''$GPGGA''
           @ drop (0 + length ''$GPGGA'') (replicate GPS_BUFFER_SIZE (CHR 0x00)),
         (0 + length ''$GPGGA'') mod GPS_BUFFER_SIZE)"
    by (rule ring_store_no_wrap) (simp_all add: GPS_BUFFER_SIZE_def)
  with 8 have "gps_nmea t1 = ''$GPGGA'' @ drop 6 (replicate GPS_BUFFER_SIZE (CHR 0x00))"
    by (simp add: k pre fresh_ring del: replicate.simps ring_store.simps)
  then have 11: "take 6 (gps_nmea t1) = ''$GPGGA''"
    by simp
  from 1 2 4 6 7 10 11 show ?thesis by blast
qed

section \<open>Telemetry: draining the ring\<close>

lemma BUF_APPEND_fits:
  "length msg + length fmt + 1 < MSG_SIZE \<Longrightarrow> BUF_APPEND msg fmt = msg @ fmt @ [newline]"
  by (simp add: BUF_APPEND_def Let_def)

lemma BUF_APPEND_cut:
  "length msg < MSG_SIZE \<Longrightarrow> MSG_SIZE \<le> length msg + length fmt + 1 \<Longrightarrow>
     BUF_APPEND msg fmt = msg @ take (MSG_SIZE - 1 - length msg) (fmt @ [newline])"
  by (simp add: BUF_APPEND_def Let_def)

lemma telemetry_drain_timeout:
  "length msg < MSG_SIZE - 2 \<Longrightarrow> gps_full s = 0 \<Longrightarrow>
     telemetry_drain ((Expired, bm) # bs) msg s =
       Some (NoFix, BUF_APPEND msg ''NO FIX.'', write_action Abort (s\<lparr>gps_full := 0\<rparr>))"
  by (simp add: sem_timedwait_def)

lemma telemetry_drain_exit:
  "telemetry_drain bs msg s = Some (x, msg', s') \<Longrightarrow>
     (x = NoFix \<longrightarrow> action_type s' = Abort \<and>
        (\<exists>m. length msg \<le> length m \<and> length m < MSG_SIZE - 2 \<and> msg' = BUF_APPEND m ''NO FIX.''))
     \<and> (x \<noteq> NoFix \<longrightarrow> action_type s' = action_type s)"
proof (induction bs arbitrary: msg s)
  case Nil
  then show ?case by (auto split: if_splits)
next
  case (Cons b bs)
  obtain bf bm where b: "b = (bf, bm)" by (cases b)
  show ?case
  proof (cases "length msg < MSG_SIZE - 2")
    case False
    with Cons.prems b show ?thesis by auto
  next
    case True
    obtain r f where w: "sem_timedwait (gps_full s) bf = (r, f)"
      by (cases "sem_timedwait (gps_full s) bf")
    obtain rm m where wm: "sem_timedwait (gps_mutex (s\<lparr>gps_full := f\<rparr>)) bm = (rm, m)"
      by (cases "sem_timedwait (gps_mutex (s\<lparr>gps_full := f\<rparr>)) bm")
    show ?thesis
    proof (cases r)
      case TimedOut
      with Cons.prems True w b have "x = NoFix" "msg' = BUF_APPEND msg ''NO FIX.''"
        "s' = write_action Abort (s\<lparr>gps_full := f\<rparr>)"
        by auto
      with True show ?thesis
        by (auto simp: write_action_type)
    next
      case SemError
      with Cons.prems True w b show ?thesis by auto
    next
      case Acquired
      show ?thesis
      proof (cases "rm = Acquired")
        case False
        with Cons.prems True w wm b Acquired show ?thesis by auto
      next
        case rmA: True
        with Cons.prems True w wm b Acquired obtain c m1 s3 where
          t: "telemetry_take msg (s\<lparr>gps_full := f, gps_mutex := m\<rparr>) = Some (c, m1, s3)"
          and rest: "(if c = newline then Some (GotLine, m1, s3) else telemetry_drain bs m1 s3)
                      = Some (x, msg', s')"
          by (auto split: option.splits)
        from t have s3: "action_type s3 = action_type s" "m1 = msg @ [c]"
          by (auto simp: telemetry_take_def Let_def split: if_splits)
        show ?thesis
        proof (cases "c = newline")
          case True
          with rest s3 show ?thesis by auto
        next
          case False
          with rest have "telemetry_drain bs m1 s3 = Some (x, msg', s')" by simp
          from Cons.IH [OF this]
          have ih: "x = NoFix \<longrightarrow> action_type s' = Abort \<and>
              (\<exists>m. length m1 \<le> length m \<and> length m < MSG_SIZE - 2
                 \<and> msg' = BUF_APPEND m ''NO FIX.'')"
            and keep: "x \<noteq> NoFix \<longrightarrow> action_type s' = action_type s3"
            by simp_all
          show ?thesis
          proof (cases "x = NoFix")
            case True
            with ih obtain m2 where "length m1 \<le> length m2" "length m2 < MSG_SIZE - 2"
              "msg' = BUF_APPEND m2 ''NO FIX.''" and "action_type s' = Abort"
              by blast
            moreover have "length msg \<le> length m1" using s3 by simp
            ultimately have "length msg \<le> length m2 \<and> length m2 < MSG_SIZE - 2
                \<and> msg' = BUF_APPEND m2 ''NO FIX.''"
              by simp
            with True \<open>action_type s' = Abort\<close> show ?thesis by blast
          next
            case False
            with keep s3 show ?thesis by simp
          qed
        qed
      qed
    qed
  qed
qed


lemma telemetry_drain_run:
  assumes "newline \<notin> set cs"
    and "length msg + length cs \<le> MSG_SIZE - 2"
    and "length cs \<le> gps_full s" and "0 < gps_mutex s"
    and "unat (gps_read s) + length cs < GPS_BUFFER_SIZE"
    and "take (length cs) (drop (unat (gps_read s)) (gps_nmea s)) = cs"
    and "length cs \<le> length bs"
  shows "\<exists>s1. telemetry_drain bs msg s = telemetry_drain (drop (length cs) bs) (msg @ cs) s1
           \<and> gps_full s1 = gps_full s - length cs
           \<and> action_type s1 = action_type s"
  using assms
proof (induction cs arbitrary: bs msg s)
  case Nil
  show ?case by (rule exI [of _ s]) simp
next
  case (Cons c cs)
  from Cons.prems obtain bf bm bs' where bs: "bs = (bf, bm) # bs'"
    by (cases bs) auto
  have r: "unat (gps_read s) < GPS_BUFFER_SIZE"
    using Cons.prems by simp
  have inb: "unat (gps_read s) < length (gps_nmea s)"
  proof (rule ccontr)
    assume "\<not> unat (gps_read s) < length (gps_nmea s)"
    with Cons.prems(6) show False by simp
  qed
  from Cons.prems(6) Cons_nth_drop_Suc [OF inb, symmetric]
  have c: "gps_nmea s ! unat (gps_read s) = c"
    and rest: "take (length cs) (drop (Suc (unat (gps_read s))) (gps_nmea s)) = cs"
    by simp_all
  define s3 where "s3 = s\<lparr>gps_full := gps_full s - 1, gps_mutex := gps_mutex s - 1,
      gps_read := (gps_read s + 1) mod word_of_nat GPS_BUFFER_SIZE,
      gps_mutex := sem_post (gps_mutex s - 1),
      gps_empty := sem_post (gps_empty s)\<rparr>"
  have cn: "c \<noteq> newline"
    using Cons.prems(1) by auto
  have step: "telemetry_drain bs msg s = telemetry_drain bs' (msg @ [c]) s3"
    using Cons.prems(2-) r c cn
    by (simp add: bs sem_timedwait_def telemetry_take_def Let_def s3_def)
  have r3: "unat (gps_read s3) = Suc (unat (gps_read s))"
    using Cons.prems(5) by (simp add: s3_def ring_next_unat [OF r])
  have "\<exists>s1. telemetry_drain bs' (msg @ [c]) s3 =
          telemetry_drain (drop (length cs) bs') ((msg @ [c]) @ cs) s1
           \<and> gps_full s1 = gps_full s3 - length cs
           \<and> action_type s1 = action_type s3"
    using Cons.prems rest r3
    by (intro Cons.IH) (simp_all add: bs s3_def sem_post_def)
  then show ?case
    using step by (auto simp: bs s3_def)
qed

lemma partial_samples:
  "partial_samples = ''$GPGGA,123519,4807.038,N,01131.000,E,1,08,0.9,545.4,M,46.9,M,,*47$GPGGA,123519,4807.038,N,01131.000,E,1,08,0.9,545.4,M,46.9,M,,*47$GPGGA,12351''"
  by (simp add: partial_samples_def nmea_samples_def)

section \<open>Telemetry: no fix\<close>

text \<open>
  Claim C6, as the code has it. In an iteration of the drain loop (fewer than 254 bytes of
  the message used) in which \<^verbatim>\<open>full\<close> is zero and the wait on it times out, the loop ends:
  \<^verbatim>\<open>BUF_APPEND\<close> adds \<^verbatim>\<open>NO FIX.\<close> to the message and the action is written as Abort. The text
  and its newline are appended whole when at most 247 bytes are used; with 248 to 253 bytes
  used only the first \<open>255 - ptr\<close> characters of it fit and are appended. Whenever the loop
  reports a timeout the action is Abort afterwards and the message is such an append to
  what had been collected; whenever it ends otherwise the action is what it was. The Abort
  stands at the end of the GPS block of the telemetry iteration.
\<close>

theorem telemetry_no_fix:
  "(length msg < MSG_SIZE - 2 \<and> gps_full s = 0 \<longrightarrow>
      telemetry_drain ((Expired, bm) # bs) msg s =
        Some (NoFix, BUF_APPEND msg ''NO FIX.'', write_action Abort (s\<lparr>gps_full := 0\<rparr>))
      \<and> action_type (write_action Abort (s\<lparr>gps_full := 0\<rparr>)) = Abort)
   \<and> (length msg \<le> 247 \<longrightarrow> BUF_APPEND msg ''NO FIX.'' = msg @ ''NO FIX.'' @ [newline])
   \<and> (247 < length msg \<and> length msg < MSG_SIZE - 2 \<longrightarrow>
      BUF_APPEND msg ''NO FIX.'' = msg @ take (255 - length msg) ''NO FIX.'')
   \<and> (telemetry_drain ps msg s = Some (x, msg', s') \<longrightarrow>
      (x = NoFix \<longrightarrow> action_type s' = Abort \<and>
         (\<exists>m. length msg \<le> length m \<and> length m < MSG_SIZE - 2
            \<and> msg' = BUF_APPEND m ''NO FIX.''))
      \<and> (x \<noteq> NoFix \<longrightarrow> action_type s' = action_type s))
   \<and> (telemetry_gps ps hdr s = Some (Some NoFix, msg'', s'') \<longrightarrow> action_type s'' = Abort)"
proof -
  have a: "length msg < MSG_SIZE - 2 \<and> gps_full s = 0 \<longrightarrow>
      telemetry_drain ((Expired, bm) # bs) msg s =
        Some (NoFix, BUF_APPEND msg ''NO FIX.'', write_action Abort (s\<lparr>gps_full := 0\<rparr>))
      \<and> action_type (write_action Abort (s\<lparr>gps_full := 0\<rparr>)) = Abort"
    using telemetry_drain_timeout [of msg s bm bs]
    by (simp add: write_action_type del: telemetry_drain.simps)
  have b: "length msg \<le> 247 \<longrightarrow> BUF_APPEND msg ''NO FIX.'' = msg @ ''NO FIX.'' @ [newline]"
  proof
    assume "length msg \<le> 247"
    then have "length msg + length ''NO FIX.'' + 1 < MSG_SIZE"
      by (simp add: MSG_SIZE_def)
    then show "BUF_APPEND msg ''NO FIX.'' = msg @ ''NO FIX.'' @ [newline]"
      by (rule BUF_APPEND_fits)
  qed
  have c: "247 < length msg \<and> length msg < MSG_SIZE - 2 \<longrightarrow>
      BUF_APPEND msg ''NO FIX.'' = msg @ take (255 - length msg) ''NO FIX.''"
  proof
    assume r: "247 < length msg \<and> length msg < MSG_SIZE - 2"
    then have "BUF_APPEND msg ''NO FIX.''
        = msg @ take (MSG_SIZE - 1 - length msg) (''NO FIX.'' @ [newline])"
      by (intro BUF_APPEND_cut) (simp_all add: MSG_SIZE_def)
    moreover have "255 - length msg \<le> 7"
      using r by arith
    then have "255 - length msg \<le> length ''NO FIX.''"
      by simp
    then have "take (255 - length msg) (''NO FIX.'' @ [newline])
        = take (255 - length msg) ''NO FIX.''"
      by (simp only: take_append) simp
    then have "take (MSG_SIZE - 1 - length msg) (''NO FIX.'' @ [newline])
        = take (255 - length msg) ''NO FIX.''"
      by (simp only: MSG_SIZE_def) simp
    ultimately show "BUF_APPEND msg ''NO FIX.'' = msg @ take (255 - length msg) ''NO FIX.''"
      by simp
  qed
  have d: "telemetry_drain ps msg s = Some (x, msg', s') \<longrightarrow>
      (x = NoFix \<longrightarrow> action_type s' = Abort \<and>
         (\<exists>m. length msg \<le> length m \<and> length m < MSG_SIZE - 2
            \<and> msg' = BUF_APPEND m ''NO FIX.''))
      \<and> (x \<noteq> NoFix \<longrightarrow> action_type s' = action_type s)"
    using telemetry_drain_exit [of ps msg s x msg' s'] by blast
  have e: "telemetry_gps ps hdr s = Some (Some NoFix, msg'', s'') \<longrightarrow> action_type s'' = Abort"
  proof
    assume "telemetry_gps ps hdr s = Some (Some NoFix, msg'', s'')"
    then obtain m where
      "telemetry_drain ps (BUF_APPEND hdr (''GPS {'' @ [newline])) (snd (read_action s))
         = Some (NoFix, m, s'')"
      by (auto simp: telemetry_gps_def split_beta split: if_splits option.splits)
    from telemetry_drain_exit [OF this] show "action_type s'' = Abort"
      by simp
  qed
  from a b c d e show ?thesis by blast
qed

text \<open>
  The theorem on the header above with an empty ring: the GPS block is opened, the first
  wait times out, the whole text is appended, the action is Abort.
\<close>

theorem telemetry_no_fix_witness:
  "length (sample_header @ ''GPS {'' @ [newline, newline]) < MSG_SIZE - 2
   \<and> length (sample_header @ ''GPS {'' @ [newline, newline]) \<le> 247
   \<and> gps_full fresh_shm = 0
   \<and> telemetry_drain [(Expired, Expired)] (sample_header @ ''GPS {'' @ [newline, newline])
        fresh_shm
      = Some (NoFix,
          (sample_header @ ''GPS {'' @ [newline, newline]) @ ''NO FIX.'' @ [newline],
          write_action Abort (fresh_shm\<lparr>gps_full := 0\<rparr>))
   \<and> action_type (write_action Abort (fresh_shm\<lparr>gps_full := 0\<rparr>)) = Abort"
proof -
  have l: "length (sample_header @ ''GPS {'' @ [newline, newline]) = 108"
    by (simp add: sample_header_def)
  from l fresh_ring(3)
    telemetry_no_fix [where msg = "sample_header @ ''GPS {'' @ [newline, newline]"
      and s = fresh_shm and bm = Expired and bs = "[]"]
  show ?thesis
    by (simp add: MSG_SIZE_def)
qed

text \<open>
  The claim that the text \<^verbatim>\<open>NO FIX.\<close> is appended fails when the message is nearly full.
  With the header above and 142 pending characters without a newline, the loop has used
  250 bytes when \<^verbatim>\<open>full\<close> runs dry; the timeout then appends \<^verbatim>\<open>NO FI\<close> and nothing more, and
  the closing brace of the block does not fit either.
\<close>

theorem telemetry_no_fix_truncated_counterexample:
  "fst (the (telemetry_gps (replicate 143 (Expired, Expired)) sample_header crowded_shm))
     = Some NoFix
   \<and> fst (snd (the (telemetry_gps (replicate 143 (Expired, Expired)) sample_header
        crowded_shm)))
       = sample_header @ ''GPS {'' @ [newline, newline] @ partial_samples @ ''NO FI''"
proof -
  have st: "action_type crowded_shm = SampleGPS" "gps_full (snd (read_action crowded_shm)) = 142"
    "gps_mutex (snd (read_action crowded_shm)) = 1" "gps_read (snd (read_action crowded_shm)) = 0"
    "gps_nmea (snd (read_action crowded_shm)) = partial_samples @ replicate 1138 (CHR 0x00)"
    by (simp_all add: crowded_shm_def read_action_def Let_def fresh_shm_def init_drone_shm_def
        init_locks_shm_def zeroed_shm_def  partial_samples_def)
  have lp: "length partial_samples = 142" and nl: "newline \<notin> set partial_samples"
    by (simp_all add: partial_samples newline_def)
  have lh: "length sample_header = 101" by (simp add: sample_header_def)
  have m0: "BUF_APPEND sample_header (''GPS {'' @ [newline]) = sample_header @ ''GPS {'' @ [newline, newline]"
    by (simp add: BUF_APPEND_def Let_def lh MSG_SIZE_def)
  from telemetry_drain_run [of partial_samples "sample_header @ ''GPS {'' @ [newline, newline]"
      "snd (read_action crowded_shm)" "replicate 143 (Expired, Expired)"]
  obtain s1 where run: "telemetry_drain (replicate 143 (Expired, Expired))
        (sample_header @ ''GPS {'' @ [newline, newline]) (snd (read_action crowded_shm))
      = telemetry_drain [(Expired, Expired)]
          ((sample_header @ ''GPS {'' @ [newline, newline]) @ partial_samples) s1"
    and f1: "gps_full s1 = 0"
    using nl by (auto simp: lp lh st MSG_SIZE_def GPS_BUFFER_SIZE_def)
  have "telemetry_drain [(Expired, Expired)] ((sample_header @ ''GPS {'' @ [newline, newline]) @ partial_samples) s1
      = Some (NoFix, BUF_APPEND ((sample_header @ ''GPS {'' @ [newline, newline]) @ partial_samples) ''NO FIX.'',
          write_action Abort (s1\<lparr>gps_full := 0\<rparr>))"
    using f1 by (intro telemetry_drain_timeout) (simp_all add: lp lh MSG_SIZE_def)
  moreover have "BUF_APPEND ((sample_header @ ''GPS {'' @ [newline, newline]) @ partial_samples) ''NO FIX.''
      = (sample_header @ ''GPS {'' @ [newline, newline]) @ partial_samples @ ''NO FI''"
    by (simp add: BUF_APPEND_def Let_def lp lh MSG_SIZE_def)
  moreover have "BUF_APPEND ((sample_header @ ''GPS {'' @ [newline, newline]) @ partial_samples @ ''NO FI'') (newline # ''}'')
      = (sample_header @ ''GPS {'' @ [newline, newline]) @ partial_samples @ ''NO FI''"
    by (simp add: BUF_APPEND_def Let_def lp lh MSG_SIZE_def)
  ultimately show ?thesis
    using run st(1) m0 by (simp add: telemetry_gps_def split_beta read_action_fst)
qed

section \<open>Supervisor: reinitialising the locks\<close>

text \<open>
  Claim C9. Initialising the synchronisation primitives again, as the handler of the
  recovery signal does, changes no field of the shared region other than the reader/writer
  lock, the three mutexes and the two counting semaphores: the battery charge, the action,
  the motor values, the acceleration, the ring buffer with both its indices, the heartbeat
  counters, the process table and the network settings are what they were.
\<close>

theorem reinit_locks_preserves_data:
  "battery (init_locks_shm p) = battery p
   \<and> action_type (init_locks_shm p) = action_type p
   \<and> pwm_motors (init_locks_shm p) = pwm_motors p
   \<and> accel_acceleration (init_locks_shm p) = accel_acceleration p
   \<and> gps_nmea (init_locks_shm p) = gps_nmea p
   \<and> gps_write (init_locks_shm p) = gps_write p
   \<and> gps_read (init_locks_shm p) = gps_read p
   \<and> wdg (init_locks_shm p) = wdg p
   \<and> pids (init_locks_shm p) = pids p
   \<and> operator_ip (init_locks_shm p) = operator_ip p
   \<and> drone_ip (init_locks_shm p) = drone_ip p
   \<and> telemetry_port (init_locks_shm p) = telemetry_port p
   \<and> flight_ctrl_port (init_locks_shm p) = flight_ctrl_port p
   \<and> fst (sigusr1_handler p) = init_locks_shm p
   \<and> init_locks_shm p =
       p\<lparr>action_lock := \<lparr>rd_sem = 1, wr_sem = 1, read_counter = 0\<rparr>,
         accel_mutex := 1, pwm_mutex := 1, gps_mutex := 1,
         gps_empty := GPS_BUFFER_SIZE, gps_full := 0\<rparr>"
  by (simp add: init_locks_shm_def sigusr1_handler_def rwlock_init_def)

section \<open>Flight controller: receive and motors\<close>

lemma read_action_frame:
  "pwm_motors (snd (read_action s)) = pwm_motors s"
  "accel_acceleration (snd (read_action s)) = accel_acceleration s"
  by (simp_all add: read_action_def Let_def)

lemma flight_recvfrom_frame:
  "flight_recvfrom rs l s = Some (cmd, l1, s1, ev) \<Longrightarrow>
     pwm_motors s1 = pwm_motors s \<and> battery s1 = battery s"
  by (induction rs l s rule: flight_recvfrom.induct)
     (auto simp: write_action_frame write_action_battery split_beta Let_def)

lemma flight_recv_frame:
  "flight_recv env l s = Some (cmd, l1, s1, ev) \<Longrightarrow>
     pwm_motors s1 = pwm_motors s \<and> battery s1 = battery s"
  by (auto simp: flight_recv_def Let_def split: if_splits option.splits
      dest: flight_recvfrom_frame)

lemma map_motors_in_range:
  "motors_in_range m \<Longrightarrow> (\<And>v. 0 \<le> v \<Longrightarrow> v \<le> 1 \<Longrightarrow> 0 \<le> f v \<and> f v \<le> 1) \<Longrightarrow>
     motors_in_range (map_motors f m)"
  by (cases m) simp

lemma fly_raise_range:
  assumes "\<And>v. 0 \<le> v \<Longrightarrow> 0 \<le> rnd v" and "0 \<le> m"
  shows "0 \<le> fly_raise rnd m \<and> fly_raise rnd m \<le> 1"
proof -
  have "0 \<le> DELTA_INCREASE rnd"
    using assms(1) by (simp add: DELTA_INCREASE_def)
  with assms have "0 \<le> fl_add rnd m (DELTA_INCREASE rnd)"
    by (simp add: fl_add_def)
  then show ?thesis
    by (simp add: fly_raise_def Let_def)
qed

lemma fly_stabilize_range: "0 \<le> fly_stabilize rnd t m \<and> fly_stabilize rnd t m \<le> 1"
  by (simp add: fly_stabilize_def Let_def)

lemma land_lower_range:
  assumes "\<And>v. 0 \<le> v \<Longrightarrow> 0 \<le> rnd v" and "\<And>v. v \<le> 1 \<Longrightarrow> rnd v \<le> 1" and "m \<le> 1"
  shows "0 \<le> land_lower rnd m \<and> land_lower rnd m \<le> 1"
proof -
  have "0 \<le> DELTA_DECREASE rnd"
    using assms(1) by (simp add: DELTA_DECREASE_def)
  with assms(3) have "m - DELTA_DECREASE rnd \<le> 1" by simp
  then have "fl_sub rnd m (DELTA_DECREASE rnd) \<le> 1"
    using assms(2) by (simp add: fl_sub_def)
  then show ?thesis
    by (simp add: land_lower_def Let_def)
qed

lemma flight_fly_motors:
  "pwm_motors (fst (snd (flight_fly rnd cmd l s))) =
     (let tmp_m = pwm_motors s;
          avg_pwm = fl_div rnd
            (fl_add rnd (fl_add rnd (fl_add rnd (fl_add rnd 0 (motor0 tmp_m)) (motor1 tmp_m))
               (motor2 tmp_m)) (motor3 tmp_m)) 4;
          tmp1 = (if avg_pwm < FLY_THRESH rnd then map_motors (fly_raise rnd) tmp_m else tmp_m)
      in if avg_pwm \<ge> ACCEL_STABILIZATION_THRESHOLD
         then map_motors (fly_stabilize rnd
                (fl_add rnd (acc_x (accel_acceleration s)) (acc_y (accel_acceleration s)))) tmp1
         else tmp1)"
  by (simp add: flight_fly_def Let_def split_beta write_action_frame)

lemma flight_land_motors:
  "pwm_motors (fst (snd (flight_land rnd cmd ca l s))) =
     (if cmd AND (Fly OR Abort) \<noteq> 0 then pwm_motors s
      else map_motors (land_lower rnd) (pwm_motors s))"
  by (simp add: flight_land_def Let_def split_beta write_action_frame)

lemma flight_switch_motors:
  "pwm_motors (fst (snd (flight_switch rnd cmd l s))) =
     (if action_type s = Fly then pwm_motors (fst (snd (flight_fly rnd cmd
          (if action_type s \<noteq> last_action l then l\<lparr>last_action := action_type s\<rparr> else l)
          (snd (read_action s)))))
      else if action_type s = Land \<or> (action_type s = Abort \<and> \<not> battery s < 15)
      then (if cmd AND (Fly OR Abort) \<noteq> 0 then pwm_motors s
            else map_motors (land_lower rnd) (pwm_motors s))
      else pwm_motors s)"
  by (simp add: flight_switch_def Let_def split_beta read_action_fst read_action_frame
      read_action_battery write_action_frame flight_land_motors action_defs)

lemma flight_switch_in_range:
  assumes r0: "\<And>v. 0 \<le> v \<Longrightarrow> 0 \<le> rnd v" and r1: "\<And>v. v \<le> 1 \<Longrightarrow> rnd v \<le> 1"
    and m: "motors_in_range (pwm_motors s)"
  shows "motors_in_range (pwm_motors (fst (snd (flight_switch rnd cmd l s))))"
proof -
  have raise: "motors_in_range (map_motors (fly_raise rnd) (pwm_motors s))"
    using m r0 by (intro map_motors_in_range fly_raise_range)
  have stab: "motors_in_range (map_motors (fly_stabilize rnd t) m')" for t m'
    by (cases m') (simp add: fly_stabilize_range)
  have lower: "motors_in_range (map_motors (land_lower rnd) (pwm_motors s))"
    using m r0 r1 by (intro map_motors_in_range land_lower_range)
  show ?thesis
    using m raise stab lower
    by (simp add: flight_switch_motors flight_fly_motors read_action_frame Let_def)
qed

lemma flight_loop_motors:
  "flight_loop rnd env l s = Some (l', s', ev) \<Longrightarrow>
     \<exists>cmd l1 s1 ev1. flight_recv env l s = Some (cmd, l1, s1, ev1)
       \<and> pwm_motors s' = pwm_motors (fst (snd (flight_switch rnd cmd l1 s1)))"
  by (auto simp: flight_loop_def split_beta split: option.splits)

lemma fresh_flight:
  "action_type fresh_shm = Idle" "battery fresh_shm = 100" "pwm_motors fresh_shm = Motors 0 0 0 0"
  "accel_acceleration fresh_shm = \<lparr>acc_x = 0, acc_y = 0, acc_z = 0\<rparr>"
  by (simp_all add: fresh_shm_def init_drone_shm_def init_locks_shm_def zeroed_shm_def)

lemma recv_no_command:
  "flight_recv no_command (flight_started a) s = Some (Reserved, flight_started a, s, [])"
  by (simp add: flight_recv_def no_command_def flight_started_def)

lemma recv_operator_sends:
  "flight_recv (operator_sends d) (flight_started a) s =
     Some (snd (recv_into d Reserved), flight_started a, s,
       if min (length d) 4 = 4 then [Stdout ''Obtained command from operator: %d.''] else [])"
  by (simp add: flight_recv_def operator_sends_def flight_started_def split_beta recv_into_def Let_def)

lemma recv_into_examples:
  "recv_into [4, 0, 0, 0] Reserved = (4, Fly)"
  "recv_into [4] Reserved = (1, Fly)"
  "recv_into [4, 0, 0, 0, 0, 0, 0, 0] Reserved = (4, Fly)"
  "recv_into [] Reserved = (0, Reserved)"
  "recv_into [16, 0, 0, 0] Reserved = (4, Idle)"
  by (simp_all add: recv_into_def le_bytes_def of_le_bytes_def action_defs)

lemma flight_switch_charge:
  assumes "action_type s = Charge" and "cmd = Idle \<or> cmd = Abort"
  shows "flight_switch rnd cmd l s =
     ((if Charge \<noteq> last_action l then l\<lparr>last_action := Charge\<rparr> else l)
        \<lparr>fc_current_battery := battery s\<rparr>,
      (if 15 \<le> battery s then write_action cmd (snd (read_action s)) else snd (read_action s)),
      (if Charge \<noteq> last_action l then [Stdout ''Current state: '', Stdout ''Charge''] else [])
      @ (if 15 \<le> battery s then []
         else [Stdout ''Charging: Battery below 15%%, ignoring operator commands.'']))"
  using assms
  by (auto simp: flight_switch_def Let_def split_beta read_action_fst read_action_battery
      printactln_def action_defs)

lemma flight_loop_operator_sends:
  "action_type (fst (snd (the (flight_loop rnd (operator_sends d) (flight_started a) s))))
     = action_type (fst (snd (flight_switch rnd (snd (recv_into d Reserved)) (flight_started a) s)))"
  "pwm_motors (fst (snd (the (flight_loop rnd (operator_sends d) (flight_started a) s))))
     = pwm_motors (fst (snd (flight_switch rnd (snd (recv_into d Reserved)) (flight_started a) s)))"
  by (simp_all add: flight_loop_def recv_operator_sends split_beta)

lemma flight_loop_no_command:
  "action_type (fst (snd (the (flight_loop rnd no_command (flight_started a) s))))
     = action_type (fst (snd (flight_switch rnd Reserved (flight_started a) s)))"
  "pwm_motors (fst (snd (the (flight_loop rnd no_command (flight_started a) s))))
     = pwm_motors (fst (snd (flight_switch rnd Reserved (flight_started a) s)))"
  by (simp_all add: flight_loop_def recv_no_command split_beta)

lemma flight_switch_abort_low:
  "action_type s = Abort \<Longrightarrow> battery s < 15 \<Longrightarrow>
     fst (snd (flight_switch rnd cmd l s)) = write_action Charge (snd (read_action s))"
  by (simp add: flight_switch_def Let_def split_beta read_action_fst read_action_battery
      action_defs)

section \<open>Flight controller: the motor range\<close>

text \<open>
  Claim C3. Let rounding to \<^verbatim>\<open>float\<close> keep non-negative values non-negative and values of at
  most 1 at most 1, as rounding to nearest does because 0 and 1 are \<^verbatim>\<open>float\<close> values. If
  every motor value is in the interval from 0 to 1 before an iteration of the flight
  controller, then every motor value is in that interval after it, whatever the action,
  the operator's command, the acceleration and the battery charge are.
\<close>

theorem motors_stay_in_range:
  assumes r0: "\<forall>v. 0 \<le> v \<longrightarrow> 0 \<le> rnd v" and r1: "\<forall>v. v \<le> 1 \<longrightarrow> rnd v \<le> 1"
    and m: "motors_in_range (pwm_motors s)"
    and run: "flight_loop rnd env l s = Some (l', s', ev)"
  shows "motors_in_range (pwm_motors s')"
proof -
  from flight_loop_motors [OF run] obtain cmd l1 s1 ev1 where
    rcv: "flight_recv env l s = Some (cmd, l1, s1, ev1)"
    and s': "pwm_motors s' = pwm_motors (fst (snd (flight_switch rnd cmd l1 s1)))"
    by blast
  from flight_recv_frame [OF rcv] m have "motors_in_range (pwm_motors s1)"
    by simp
  with r0 r1 have "motors_in_range (pwm_motors (fst (snd (flight_switch rnd cmd l1 s1))))"
    by (intro flight_switch_in_range) simp_all
  with s' show ?thesis by simp
qed

text \<open>The theorem with exact arithmetic on the first iteration of a take-off.\<close>

theorem motors_stay_in_range_witness:
  "motors_in_range (pwm_motors (fresh_shm\<lparr>action_type := Fly\<rparr>))
   \<and> flight_loop (\<lambda>v. v) no_command (flight_started Idle) (fresh_shm\<lparr>action_type := Fly\<rparr>) \<noteq> None
   \<and> motors_in_range (pwm_motors (fst (snd (the
        (flight_loop (\<lambda>v. v) no_command (flight_started Idle) (fresh_shm\<lparr>action_type := Fly\<rparr>))))))"
proof -
  have m: "motors_in_range (pwm_motors (fresh_shm\<lparr>action_type := Fly\<rparr>))"
    by (simp add: fresh_flight)
  obtain l' s' ev where
    run: "flight_loop (\<lambda>v. v) no_command (flight_started Idle) (fresh_shm\<lparr>action_type := Fly\<rparr>)
            = Some (l', s', ev)"
    by (simp add: flight_loop_def recv_no_command split_beta)
  have "motors_in_range (pwm_motors s')"
    by (rule motors_stay_in_range [OF _ _ m run]) simp_all
  with m run show ?thesis by simp
qed

section \<open>Flight controller: commands while charging\<close>

text \<open>
  Claim C4. In an iteration that observes the action Charge and has received the command
  Idle or Abort, the command becomes the action if and only if the battery charge read in
  that iteration is at least 15. Below 15 the line
  \<^verbatim>\<open>Charging: Battery below 15%, ignoring operator commands.\<close> is printed and the action
  stays Charge. Neither the charge nor the motors change.
\<close>

theorem charge_accepts_when_charged:
  assumes rcv: "flight_recv env l s = Some (cmd, l1, s1, ev1)"
    and ch: "action_type s1 = Charge"
    and cmd: "cmd = Idle \<or> cmd = Abort"
  shows "\<exists>l2 s2 ev2. flight_loop rnd env l s = Some (l2, s2, ev1 @ ev2)
     \<and> (15 \<le> battery s1 \<longrightarrow> action_type s2 = cmd
          \<and> Stdout ''Charging: Battery below 15%%, ignoring operator commands.'' \<notin> set ev2)
     \<and> (battery s1 < 15 \<longrightarrow> action_type s2 = Charge
          \<and> Stdout ''Charging: Battery below 15%%, ignoring operator commands.'' \<in> set ev2)
     \<and> (action_type s2 = cmd \<longleftrightarrow> 15 \<le> battery s1)
     \<and> battery s2 = battery s1 \<and> pwm_motors s2 = pwm_motors s1"
proof -
  have ne: "cmd \<noteq> Charge"
    using cmd by (auto simp: action_defs)
  have lt: "battery s1 < 15 \<longleftrightarrow> \<not> 15 \<le> battery s1"
    by (simp add: not_le)
  show ?thesis
    using ne ch
    by (simp add: flight_loop_def rcv flight_switch_charge [OF ch cmd] lt
        write_action_type write_action_battery write_action_frame
        read_action_type read_action_battery read_action_frame)
qed

text \<open>The theorem on the command Idle at charge 14, which is ignored, and at 15, which is taken.\<close>

theorem charge_accepts_when_charged_witness:
  "flight_recv (operator_sends [16, 0, 0, 0]) (flight_started Charge)
       (fresh_shm\<lparr>action_type := Charge, battery := 14\<rparr>)
     = Some (Idle, flight_started Charge, fresh_shm\<lparr>action_type := Charge, battery := 14\<rparr>,
         [Stdout ''Obtained command from operator: %d.''])
   \<and> action_type (fst (snd (the (flight_loop (\<lambda>v. v) (operator_sends [16, 0, 0, 0])
        (flight_started Charge) (fresh_shm\<lparr>action_type := Charge, battery := 14\<rparr>))))) = Charge
   \<and> action_type (fst (snd (the (flight_loop (\<lambda>v. v) (operator_sends [16, 0, 0, 0])
        (flight_started Charge) (fresh_shm\<lparr>action_type := Charge, battery := 15\<rparr>))))) = Idle"
proof -
  have r: "flight_recv (operator_sends [16, 0, 0, 0]) (flight_started Charge) s
     = Some (Idle, flight_started Charge, s, [Stdout ''Obtained command from operator: %d.''])" for s
    by (simp add: recv_operator_sends recv_into_examples)
  from charge_accepts_when_charged [OF r, of "fresh_shm\<lparr>action_type := Charge, battery := 14\<rparr>" "\<lambda>v. v"]
  have a: "action_type (fst (snd (the (flight_loop (\<lambda>v. v) (operator_sends [16, 0, 0, 0])
        (flight_started Charge) (fresh_shm\<lparr>action_type := Charge, battery := 14\<rparr>))))) = Charge"
    by auto
  from charge_accepts_when_charged [OF r, of "fresh_shm\<lparr>action_type := Charge, battery := 15\<rparr>" "\<lambda>v. v"]
  have b: "action_type (fst (snd (the (flight_loop (\<lambda>v. v) (operator_sends [16, 0, 0, 0])
        (flight_started Charge) (fresh_shm\<lparr>action_type := Charge, battery := 15\<rparr>))))) = Idle"
    by auto
  from r a b show ?thesis by simp
qed

section \<open>Flight controller: Abort\<close>

text \<open>
  Claim C1 says that an iteration which observes Abort ignores the operator, restores the
  previously seen action when the charge is at least 15, and then lowers the motors. The
  code does not: with charge 50, motors at one half and the last seen action Fly, the
  command Fly becomes the action and the motors are not touched, because the branch falls
  into the test of \<^verbatim>\<open>case Land\<close> that accepts Fly and Abort and leaves the \<^verbatim>\<open>switch\<close> before
  the decrease; and without a command the action written back is Abort itself, because
  \<^verbatim>\<open>last_action\<close> was overwritten with the observed action before the \<^verbatim>\<open>switch\<close>.
\<close>

theorem abort_obeys_operator:
  "action_type (fst (snd (the (flight_loop (\<lambda>v. v) (operator_sends [4, 0, 0, 0]) (flight_started Fly)
      (fresh_shm\<lparr>action_type := Abort, battery := 50,
         pwm_motors := Motors (1/2) (1/2) (1/2) (1/2)\<rparr>))))) = Fly
   \<and> pwm_motors (fst (snd (the (flight_loop (\<lambda>v. v) (operator_sends [4, 0, 0, 0]) (flight_started Fly)
      (fresh_shm\<lparr>action_type := Abort, battery := 50,
         pwm_motors := Motors (1/2) (1/2) (1/2) (1/2)\<rparr>))))) = Motors (1/2) (1/2) (1/2) (1/2)
   \<and> last_action (flight_started Fly) = Fly
   \<and> action_type (fst (snd (the (flight_loop (\<lambda>v. v) no_command (flight_started Fly)
      (fresh_shm\<lparr>action_type := Abort, battery := 50,
         pwm_motors := Motors (1/2) (1/2) (1/2) (1/2)\<rparr>))))) = Abort"
  by (simp only: flight_loop_operator_sends flight_loop_no_command recv_into_examples snd_conv)
     (simp add: flight_switch_def Let_def split_beta read_action_fst read_action_battery
      read_action_frame read_action_type flight_started_def action_defs flight_land_def
      write_action_type write_action_frame land_lower_def fl_sub_def fl_add_def fl_div_def
      DELTA_DECREASE_def)

section \<open>Flight controller: datagrams of the wrong size\<close>

text \<open>
  Claim C5 says that a datagram whose size is not that of the action tag is ignored. The
  code does not ignore it: the size test guards only the log line, and the \<^verbatim>\<open>switch\<close> acts
  on whatever \<^verbatim>\<open>recvfrom\<close> has left in \<^verbatim>\<open>operator_cmd\<close>. From Idle, a datagram of the single
  byte 4 makes the action Fly, and so does a datagram of eight bytes that starts with the
  four bytes of Fly.
\<close>

theorem short_datagram_obeyed:
  "action_type fresh_shm = Idle
   \<and> action_type (fst (snd (the (flight_loop (\<lambda>v. v) (operator_sends [4])
        (flight_started Idle) fresh_shm)))) = Fly
   \<and> action_type (fst (snd (the (flight_loop (\<lambda>v. v) (operator_sends [4, 0, 0, 0, 0, 0, 0, 0])
        (flight_started Idle) fresh_shm)))) = Fly"
  by (simp only: flight_loop_operator_sends recv_into_examples snd_conv)
     (simp add: flight_switch_def Let_def split_beta read_action_fst read_action_type fresh_flight
      flight_started_def action_defs write_action_type)

section \<open>Battery: charging and discharging\<close>

text \<open>
  Claim C7, as the code has it. On a tick that reads Charge, the charge goes up by exactly
  1 when at least 500 ms have elapsed since the last update and it is below 100, and is
  unchanged otherwise. On a tick that reads any other action, the charge goes down by
  exactly 1 when at least 2000 ms have elapsed and it is above 0, and is unchanged
  otherwise. The whole process group is signalled by a tick due for discharge that reads the
  charge at 0, and by no other tick: the tick that takes the charge from 1 to 0 does not
  signal. A tick that updates restarts the interval at its own clock reading. A charge of
  at most 100 stays at most 100 after one tick and after any sequence of ticks, whatever
  the other actors do to the action in between.
\<close>

theorem battery_charge_discharge:
  assumes tick: "battery_loop now l s = (l', s', ev)"
  shows "(action_type s = Charge \<longrightarrow>
            unat (battery s') =
              (if 500 \<le> battery_elapsed now l \<and> unat (battery s) < 100
               then unat (battery s) + 1 else unat (battery s)))
       \<and> (action_type s \<noteq> Charge \<longrightarrow>
            unat (battery s') =
              (if 2000 \<le> battery_elapsed now l \<and> 0 < unat (battery s)
               then unat (battery s) - 1 else unat (battery s)))
       \<and> (Kill 0 \<in> set ev \<longleftrightarrow>
            action_type s \<noteq> Charge \<and> 2000 \<le> battery_elapsed now l \<and> unat (battery s) = 0)
       \<and> (bat_last_time l' =
            (if (if action_type s = Charge then 500 else 2000) \<le> battery_elapsed now l
             then now else if bat_init l then now else bat_last_time l))
       \<and> (unat (battery s) \<le> 100 \<longrightarrow> unat (battery s') \<le> 100)
       \<and> (unat (battery s) \<le> 100 \<longrightarrow> unat (battery (snd (battery_run ts (l, s)))) \<le> 100)
       \<and> (action_type s \<noteq> Charge \<and> 2000 \<le> battery_elapsed now l \<and> unat (battery s) = 1 \<longrightarrow>
            unat (battery s') = 0 \<and> Kill 0 \<notin> set ev)"
proof -
  have s': "s' = fst (snd (battery_loop now l s))" and l': "l' = fst (battery_loop now l s)"
    and ev: "ev = snd (snd (battery_loop now l s))"
    using tick by simp_all
  have up: "unat (battery s) < 100 \<Longrightarrow> unat (battery s + 1) = unat (battery s) + 1"
    by (simp add: unat_word_ariths)
  have down: "0 < unat (battery s) \<Longrightarrow> unat (battery s - 1) = unat (battery s) - 1"
    by (simp add: unat_minus_one unat_gt_0)
  have c1: "action_type s = Charge \<longrightarrow>
            unat (battery s') =
              (if 500 \<le> battery_elapsed now l \<and> unat (battery s) < 100
               then unat (battery s) + 1 else unat (battery s))"
    using up by (simp add: s' battery_tick_charge CHARGE_INTERVAL_MS_def word_less_nat_alt)
  have c2: "action_type s \<noteq> Charge \<longrightarrow>
            unat (battery s') =
              (if 2000 \<le> battery_elapsed now l \<and> 0 < unat (battery s)
               then unat (battery s) - 1 else unat (battery s))"
    using down by (simp add: s' battery_tick_charge DISCHARGE_INTERVAL_MS_def word_less_nat_alt)
  have c3: "Kill 0 \<in> set ev \<longleftrightarrow>
            action_type s \<noteq> Charge \<and> 2000 \<le> battery_elapsed now l \<and> unat (battery s) = 0"
    by (simp add: ev battery_tick_kill DISCHARGE_INTERVAL_MS_def unat_eq_0)
  have c4: "bat_last_time l' =
            (if (if action_type s = Charge then 500 else 2000) \<le> battery_elapsed now l
             then now else if bat_init l then now else bat_last_time l)"
    by (simp add: l' battery_tick_last_time DISCHARGE_INTERVAL_MS_def CHARGE_INTERVAL_MS_def)
  have c5: "unat (battery s) \<le> 100 \<longrightarrow> unat (battery s') \<le> 100"
    using battery_tick_bound [of s now l] by (simp add: s' word_le_nat_alt)
  have c6: "unat (battery s) \<le> 100 \<longrightarrow> unat (battery (snd (battery_run ts (l, s)))) \<le> 100"
    using battery_run_bound [of "(l, s)" ts] by (simp add: word_le_nat_alt)
  have c7: "action_type s \<noteq> Charge \<and> 2000 \<le> battery_elapsed now l \<and> unat (battery s) = 1 \<longrightarrow>
            unat (battery s') = 0 \<and> Kill 0 \<notin> set ev"
    using c2 c3 by simp
  from c1 c2 c3 c4 c5 c6 c7 show ?thesis by blast
qed

text \<open>
  The theorem on a charging tick 600 ms after the last update at charge 99, and on a
  discharge tick that finds the charge at 0.
\<close>

theorem battery_charge_discharge_witness:
  "action_type (fresh_shm\<lparr>action_type := Charge, battery := 99\<rparr>) = Charge
   \<and> unat (battery (fresh_shm\<lparr>action_type := Charge, battery := 99\<rparr>)) \<le> 100
   \<and> battery_elapsed (at_ms 2500) (battery_started 1900) = 600
   \<and> unat (battery (fst (snd (battery_loop (at_ms 2500) (battery_started 1900)
        (fresh_shm\<lparr>action_type := Charge, battery := 99\<rparr>))))) = 100
   \<and> Kill 0 \<in> set (snd (snd (battery_loop (at_ms 2500) (battery_started 400)
        (fresh_shm\<lparr>action_type := Fly, battery := 0\<rparr>))))"
proof -
  have e: "battery_elapsed (at_ms 2500) (battery_started 1900) = 600"
    "battery_elapsed (at_ms 2500) (battery_started 400) = 2100"
    by (simp_all add: battery_elapsed_def battery_started_def elapsed_ms_def at_ms_def
        NANOSECONDS_IN_MS_def)
  have a: "Fly \<noteq> Charge"
    by (simp add: action_defs)
  show ?thesis
    using e a
      battery_charge_discharge [where now = "at_ms 2500" and l = "battery_started 1900" and s = "fresh_shm\<lparr>action_type := Charge, battery := 99\<rparr>" and ts = "[]",
        OF triple_collapse]
      battery_charge_discharge [where now = "at_ms 2500" and l = "battery_started 400" and s = "fresh_shm\<lparr>action_type := Fly, battery := 0\<rparr>" and ts = "[]",
        OF triple_collapse]
    by simp
qed

text \<open>
  The claim that the group is terminated when the charge reaches 0 fails. The tick that
  takes the charge from 1 to 0 in Abort sends no signal. The flight controller then
  answers Abort at a charge below 15 with Charge, and the battery tick 600 ms later
  charges to 1, again without a signal.
\<close>

theorem battery_zero_without_shutdown_counterexample:
  "unat (battery (fresh_shm\<lparr>action_type := Abort, battery := 1\<rparr>)) = 1
   \<and> unat (battery (fst (snd drained_tick))) = 0
   \<and> Kill 0 \<notin> set (snd (snd drained_tick))
   \<and> action_type (fst (snd drained_flight)) = Charge
   \<and> unat (battery (fst (snd recharge_tick))) = 1
   \<and> Kill 0 \<notin> set (snd (snd recharge_tick))"
proof -
  have e: "battery_elapsed (at_ms 2500) (battery_started 400) = 2100"
    by (simp add: battery_elapsed_def battery_started_def elapsed_ms_def at_ms_def
        NANOSECONDS_IN_MS_def)
  have a: "Abort \<noteq> Charge"
    by (simp add: action_defs)
  have b1: "battery (fst (snd drained_tick)) = 0"
    using e a by (simp add: drained_tick_def battery_tick_charge DISCHARGE_INTERVAL_MS_def)
  have a1: "action_type (fst (snd drained_tick)) = Abort"
    using e a by (simp add: drained_tick_def battery_tick_action)
  have k1: "Kill 0 \<notin> set (snd (snd drained_tick))"
    by (simp add: drained_tick_def battery_tick_kill)
  have f: "fst (snd (flight_switch (\<lambda>v. v) Reserved (flight_started Abort) (fst (snd drained_tick))))
      = write_action Charge (snd (read_action (fst (snd drained_tick))))"
    using a1 b1 by (intro flight_switch_abort_low) simp_all
  have a2: "action_type (fst (snd drained_flight)) = Charge"
    by (simp add: drained_flight_def flight_loop_no_command f write_action_type)
  have b2: "battery (fst (snd drained_flight)) = 0"
    using b1
    by (simp add: drained_flight_def flight_loop_def recv_no_command split_beta f
        write_action_battery read_action_battery)
  have l1: "bat_last_time (fst drained_tick) = at_ms 2500" "bat_init (fst drained_tick) = False"
    using e a
    by (simp_all add: drained_tick_def battery_tick_last_time battery_tick_init
        DISCHARGE_INTERVAL_MS_def)
  have e2: "battery_elapsed (at_ms 3100) (fst drained_tick) = 600"
    by (simp add: battery_elapsed_def l1) (simp add: elapsed_ms_def at_ms_def NANOSECONDS_IN_MS_def)
  have b3: "battery (fst (snd recharge_tick)) = 1"
    using e2 a2 b2 by (simp add: recharge_tick_def battery_tick_charge CHARGE_INTERVAL_MS_def)
  have k3: "Kill 0 \<notin> set (snd (snd recharge_tick))"
    using a2 by (simp add: recharge_tick_def battery_tick_kill)
  from b1 k1 a2 b3 k3 show ?thesis
    by simp
qed

end
